theory Spec2Isabelle
  imports Complex_Main "HOL-Library.Sublist"
begin

section \<open>The human simulator of the state service: data model\<close>

text \<open>
  This theory embeds \<^verbatim>\<open>StateServiceHumanSimulator.ts\<close>: the constructor that
  normalises a \<^verbatim>\<open>SimulationConfig\<close>, the start/stop lifecycle with its shutdown
  handshake, the edit operations that apply an inferred action to the editor, one turn
  of either actor, and the paired (zero-style) schedule.

  JavaScript numbers are modelled as \<^typ>\<open>int\<close> (the counts and the millisecond values
  of the configuration), an optional field of the configuration as an \<^typ>\<open>'a option\<close>
  with \<^term>\<open>None\<close> for \<^verbatim>\<open>undefined\<close>. \<^verbatim>\<open>NaN\<close> and fractional values are outside
  the model. The noise, temperature, epsilon and attribution-log fields only shape the
  request sent to the external inference service and are left out; the service itself
  is an oracle (see \<open>inference_outcome\<close> below).
\<close>

subsection \<open>Configuration, statistics, editor\<close>

record simulation_config =
  cfg_problemDescription :: "string option"
  cfg_closeOnStop :: "bool option"
  cfg_maxAssistantActions :: "int option"
  cfg_humanFollowUpActions :: "int option"
  cfg_maxActions :: "int option"
  cfg_intervalMs :: "int option"
  cfg_durationMs :: "int option"
  cfg_minActionDelayMs :: "int option"
  cfg_maxActionDelayMs :: "int option"
  cfg_postActionPauseMs :: "int option"
  cfg_minTypingDelayMs :: "int option"
  cfg_maxTypingDelayMs :: "int option"

record simulation_stats =
  totalActions :: int
  totalDurationMs :: int
  episodesCreated :: int
  agentSuggestionsReceived :: int
  lastRunTime :: "int option"

record position =
  lineNumber :: nat
  column :: nat

text \<open>
  Modelled from the spec: the editor widget is an external collaborator, consumed as
  ``a mutable line-addressed text buffer with a cursor'', 1-indexed. \<open>ed_model\<close> is the
  list of lines of the attached text model (\<^term>\<open>None\<close> when \<^verbatim>\<open>getModel()\<close> is null),
  \<open>ed_position\<close> the cursor.
\<close>

record editor =
  ed_model :: "string list option"
  ed_position :: position

text \<open>
  \<^verbatim>\<open>SimulationAction\<close>: its type, and for the three direct kinds the part of the payload
  that the \<^verbatim>\<open>switch\<close> reads (\<^term>\<open>None\<close> when absent).
\<close>

datatype simulation_action =
    StateServiceHuman
  | StateServiceAssistant
  | TypeAction "string option"
  | CursorMoveAction "position option"
  | WaitAction "int option"
  | OtherAction

datatype schedule_event = Attempt simulation_action | Pause int

datatype host_window = WindowOpen | WindowClosed | WindowBlank

text \<open>
  The fields of the class. \<open>keystrokes\<close> is a history variable: every character handed
  to the editor's \<^verbatim>\<open>type\<close> command, paired with the value of the typing lock at that
  moment. \<open>host\<close> records what \<^verbatim>\<open>stop()\<close> did to the hosting window, and
  \<open>schedule_log\<close> is the history of what the paired sequence awaited: the turns it
  attempted and its pauses.
\<close>

record simulator =
  editor :: "editor option"
  config :: simulation_config
  stats :: simulation_stats
  isRunning :: bool
  intervalId :: "nat option"
  startTime :: int
  isProcessing :: bool
  isTyping :: bool
  problemDescription :: "string option"
  timestep :: int
  closeOnStop :: bool
  maxAssistantActions :: "int option"
  humanFollowUpActions :: int
  assistantActionsPerformed :: int
  humanActionsPerformed :: int
  minActionDelayMs :: int
  maxActionDelayMs :: int
  postActionPauseMs :: int
  minTypingDelayMs :: int
  maxTypingDelayMs :: int
  keystrokes :: "(char \<times> bool) list"
  host :: host_window
  schedule_log :: "schedule_event list"

subsection \<open>Construction\<close>

text \<open>The field initialisers of the class, before the constructor body runs.\<close>

definition initial_simulator :: "simulation_config \<Rightarrow> simulator" where
  "initial_simulator c =
     \<lparr> editor = None,
       config = c,
       stats = \<lparr> totalActions = 0, totalDurationMs = 0, episodesCreated = 0,
                 agentSuggestionsReceived = 0, lastRunTime = None \<rparr>,
       isRunning = False,
       intervalId = None,
       startTime = 0,
       isProcessing = False,
       isTyping = False,
       problemDescription = None,
       timestep = 0,
       closeOnStop = False,
       maxAssistantActions = None,
       humanFollowUpActions = 0,
       assistantActionsPerformed = 0,
       humanActionsPerformed = 0,
       minActionDelayMs = 350,
       maxActionDelayMs = 900,
       postActionPauseMs = 1400,
       minTypingDelayMs = 45,
       maxTypingDelayMs = 130,
       keystrokes = [],
       host = WindowOpen,
       schedule_log = [] \<rparr>"

text \<open>
  The three-way choice of lines 64--72: a provided \<^verbatim>\<open>maxAssistantActions\<close> (whatever
  its value) floors the follow-up count at 1; otherwise the follow-up count is the
  provided \<^verbatim>\<open>humanFollowUpActions\<close>, else \<^verbatim>\<open>maxActions\<close>, floored at 0.
\<close>

definition set_turn_limits :: "simulation_config \<Rightarrow> simulator \<Rightarrow> simulator" where
  "set_turn_limits c s =
     (case cfg_maxAssistantActions c of
        Some a \<Rightarrow>
          s\<lparr> maxAssistantActions := Some (max 0 a),
             humanFollowUpActions :=
               max 1 (case cfg_humanFollowUpActions c of Some provided \<Rightarrow> provided | None \<Rightarrow> 1) \<rparr>
      | None \<Rightarrow>
          (case cfg_humanFollowUpActions c of
             Some h \<Rightarrow> s\<lparr> humanFollowUpActions := max 0 h \<rparr>
           | None \<Rightarrow>
               (case cfg_maxActions c of
                  Some m \<Rightarrow> s\<lparr> humanFollowUpActions := max 0 m \<rparr>
                | None \<Rightarrow> s)))"

text \<open>
  Lines 93--107. Each \<^verbatim>\<open>if\<close> overwrites a default only when its test passes; the
  tests on the two maxima read the minimum already stored.
\<close>

definition accept_minActionDelayMs :: "simulation_config \<Rightarrow> simulator \<Rightarrow> simulator" where
  "accept_minActionDelayMs c s =
     (case cfg_minActionDelayMs c of
        Some v \<Rightarrow> if 0 \<le> v then s\<lparr> minActionDelayMs := v \<rparr> else s
      | None \<Rightarrow> s)"

definition accept_maxActionDelayMs :: "simulation_config \<Rightarrow> simulator \<Rightarrow> simulator" where
  "accept_maxActionDelayMs c s =
     (case cfg_maxActionDelayMs c of
        Some v \<Rightarrow> if minActionDelayMs s \<le> v then s\<lparr> maxActionDelayMs := v \<rparr> else s
      | None \<Rightarrow> s)"

definition accept_postActionPauseMs :: "simulation_config \<Rightarrow> simulator \<Rightarrow> simulator" where
  "accept_postActionPauseMs c s =
     (case cfg_postActionPauseMs c of
        Some v \<Rightarrow> if 0 \<le> v then s\<lparr> postActionPauseMs := v \<rparr> else s
      | None \<Rightarrow> s)"

definition accept_minTypingDelayMs :: "simulation_config \<Rightarrow> simulator \<Rightarrow> simulator" where
  "accept_minTypingDelayMs c s =
     (case cfg_minTypingDelayMs c of
        Some v \<Rightarrow> if 0 \<le> v then s\<lparr> minTypingDelayMs := v \<rparr> else s
      | None \<Rightarrow> s)"

definition accept_maxTypingDelayMs :: "simulation_config \<Rightarrow> simulator \<Rightarrow> simulator" where
  "accept_maxTypingDelayMs c s =
     (case cfg_maxTypingDelayMs c of
        Some v \<Rightarrow> if minTypingDelayMs s \<le> v then s\<lparr> maxTypingDelayMs := v \<rparr> else s
      | None \<Rightarrow> s)"

definition set_delays :: "simulation_config \<Rightarrow> simulator \<Rightarrow> simulator" where
  "set_delays c s =
     accept_maxTypingDelayMs c
       (accept_minTypingDelayMs c
          (accept_postActionPauseMs c
             (accept_maxActionDelayMs c
                (accept_minActionDelayMs c s))))"

definition constructor :: "simulation_config \<Rightarrow> simulator" where
  "constructor c =
     set_delays c
       (set_turn_limits c
          ((initial_simulator c)
             \<lparr> problemDescription := cfg_problemDescription c,
               closeOnStop := (case cfg_closeOnStop c of Some b \<Rightarrow> b | None \<Rightarrow> False) \<rparr>))"

definition setEditor :: "editor option \<Rightarrow> simulator \<Rightarrow> simulator" where
  "setEditor e s = s\<lparr> editor := e \<rparr>"

text \<open>The timestep handed over is the last completed one; the next request carries the
  one after it.\<close>

definition setInitialTimestep :: "int \<Rightarrow> simulator \<Rightarrow> simulator" where
  "setInitialTimestep t s = s\<lparr> timestep := t + 1 \<rparr>"

definition getStats :: "simulator \<Rightarrow> simulation_stats" where
  "getStats s = stats s"

text \<open>
  \<^verbatim>\<open>randomDelay\<close>, with the draw \<open>r\<close> of \<^verbatim>\<open>Math.random()\<close> as a parameter
  (\<open>0 \<le> r < 1\<close>). The result is a fraction of a millisecond, hence a real.
\<close>

definition randomDelay :: "int \<Rightarrow> int \<Rightarrow> real \<Rightarrow> real" where
  "randomDelay mn mx r = (if mx \<le> mn then of_int mn else of_int mn + r * (of_int mx - of_int mn))"

definition empty_config :: simulation_config where
  "empty_config =
     \<lparr> cfg_problemDescription = None, cfg_closeOnStop = None,
       cfg_maxAssistantActions = None, cfg_humanFollowUpActions = None,
       cfg_maxActions = None, cfg_intervalMs = None, cfg_durationMs = None,
       cfg_minActionDelayMs = None, cfg_maxActionDelayMs = None,
       cfg_postActionPauseMs = None, cfg_minTypingDelayMs = None,
       cfg_maxTypingDelayMs = None \<rparr>"

subsection \<open>Stopping and the shutdown handshake\<close>

text \<open>
  What the surroundings contribute to one call of \<^verbatim>\<open>stop()\<close>: the two readings of
  \<^verbatim>\<open>Date.now()\<close>, whether the \<^verbatim>\<open>try\<close> block throws before the timeout is armed, how
  often a listener calls the resolver it was handed (synchronously inside
  \<^verbatim>\<open>dispatchEvent\<close>, later but before the 2000 ms timer is due, and after that), and
  whether \<^verbatim>\<open>window.close()\<close> throws.
\<close>

record stop_env =
  now_duration :: int
  now_lastRun :: int
  dispatch_throws :: bool
  acks_in_dispatch :: nat
  acks_before_timeout :: nat
  acks_after_timeout :: nat
  close_throws :: bool

text \<open>
  The local variables of the promise executor (lines 173--212). \<open>timerArmed\<close> is the
  runtime's side of \<^verbatim>\<open>setTimeout\<close>/\<^verbatim>\<open>clearTimeout\<close>: a timer that is armed fires when it
  is due. \<open>resolveCalls\<close> counts the invocations of the promise's \<^verbatim>\<open>resolve\<close>, \<open>warned\<close>
  records the warning of the fallback.
\<close>

record handshake =
  resolved :: bool
  timeoutId :: "nat option"
  timerArmed :: bool
  resolveCalls :: nat
  warned :: bool

definition new_handshake :: handshake where
  "new_handshake =
     \<lparr> resolved = False, timeoutId = None, timerArmed = False, resolveCalls = 0, warned = False \<rparr>"

definition resolveAndClear :: "handshake \<Rightarrow> handshake" where
  "resolveAndClear h =
     (if \<not> resolved h
      then (let h1 = h\<lparr> resolved := True \<rparr>;
                h2 = (if timeoutId h1 \<noteq> None then h1\<lparr> timerArmed := False \<rparr> else h1)
            in h2\<lparr> resolveCalls := Suc (resolveCalls h2) \<rparr>)
      else h)"

definition fallback :: "handshake \<Rightarrow> handshake" where
  "fallback h = (if \<not> resolved h then resolveAndClear (h\<lparr> warned := True \<rparr>) else h)"

text \<open>The timer is due: the runtime runs the callback of an armed timer, once.\<close>

definition timer_due :: "handshake \<Rightarrow> handshake" where
  "timer_due h = (if timerArmed h then fallback (h\<lparr> timerArmed := False \<rparr>) else h)"

text \<open>
  The executor: the listeners run inside \<^verbatim>\<open>dispatchEvent\<close>; then either the \<^verbatim>\<open>catch\<close>
  resolves, or the timeout is armed.
\<close>

definition executor :: "stop_env \<Rightarrow> handshake" where
  "executor e =
     (let h1 = (resolveAndClear ^^ acks_in_dispatch e) new_handshake
      in if dispatch_throws e then resolveAndClear h1
         else h1\<lparr> timeoutId := Some 1, timerArmed := True \<rparr>)"

definition completion :: "stop_env \<Rightarrow> handshake" where
  "completion e =
     (resolveAndClear ^^ acks_after_timeout e)
       (timer_due ((resolveAndClear ^^ acks_before_timeout e) (executor e)))"

text \<open>A handshake is settled when it is resolved by exactly one call and no timer is armed.\<close>

definition settled :: "handshake \<Rightarrow> bool" where
  "settled h \<longleftrightarrow> resolved h \<and> resolveCalls h = 1 \<and> \<not> timerArmed h"

text \<open>
  \<^verbatim>\<open>stop()\<close>. The result is \<^term>\<open>None\<close> when \<^verbatim>\<open>await completion\<close> never returns, that is
  when the promise's \<^verbatim>\<open>resolve\<close> is never called.
\<close>

definition stop_sync :: "stop_env \<Rightarrow> simulator \<Rightarrow> simulator" where
  "stop_sync e s =
     (let s1 = s\<lparr> isRunning := False, isProcessing := False \<rparr>;
          s2 = (case intervalId s1 of
                  Some n \<Rightarrow> if n \<noteq> 0 then s1\<lparr> intervalId := None \<rparr> else s1
                | None \<Rightarrow> s1);
          s3 = s2\<lparr> stats := (stats s2)\<lparr> totalDurationMs :=
                   totalDurationMs (stats s2) + (now_duration e - startTime s2) \<rparr> \<rparr>
      in s3\<lparr> stats := (stats s3)\<lparr> lastRunTime := Some (now_lastRun e) \<rparr> \<rparr>)"

definition close_host :: "stop_env \<Rightarrow> simulator \<Rightarrow> simulator" where
  "close_host e s =
     (if closeOnStop s
      then s\<lparr> host := (if close_throws e then WindowBlank else WindowClosed) \<rparr>
      else s)"

definition stop :: "stop_env \<Rightarrow> simulator \<Rightarrow> simulator option" where
  "stop e s =
     (if \<not> isRunning s then Some s
      else (let s1 = stop_sync e s
            in if resolveCalls (completion e) = 0 then None
               else Some (close_host e s1)))"

text \<open>What a call of \<^verbatim>\<open>stop()\<close> has done when it reaches its \<^verbatim>\<open>await\<close>: the state a
  flow sees that resumes while the caller still waits for the handshake.\<close>

definition stop_begin :: "stop_env \<Rightarrow> simulator \<Rightarrow> simulator" where
  "stop_begin e s = (if \<not> isRunning s then s else stop_sync e s)"

section \<open>The edit applier\<close>

subsection \<open>Strings\<close>

text \<open>
  A \<^typ>\<open>char\<close> stands for one UTF-16 code unit below 256. Of the characters that
  \<^verbatim>\<open>trim\<close> removes, these are tab, line feed, vertical tab, form feed, carriage return,
  space and U+00A0.
\<close>

definition isWhiteSpace :: "char \<Rightarrow> bool" where
  "isWhiteSpace c \<longleftrightarrow>
     c \<in> set [CHR 0x09, CHR 0x0A, CHR 0x0B, CHR 0x0C, CHR 0x0D, CHR 0x20, CHR 0xA0]"

definition trimStart :: "string \<Rightarrow> string" where
  "trimStart s = dropWhile isWhiteSpace s"

definition trimEnd :: "string \<Rightarrow> string" where
  "trimEnd s = rev (dropWhile isWhiteSpace (rev s))"

definition trim :: "string \<Rightarrow> string" where
  "trim s = trimEnd (trimStart s)"

text \<open>\<^verbatim>\<open>text.split('\n')\<close>: never empty, the empty string gives one empty line.\<close>

fun split_lines :: "string \<Rightarrow> string list" where
  "split_lines [] = [[]]"
| "split_lines (c # cs) =
     (if c = CHR 0x0A then [] # split_lines cs
      else (case split_lines cs of l # ls \<Rightarrow> (c # l) # ls | [] \<Rightarrow> [[c]]))"

text \<open>\<^verbatim>\<open>lines.join('\n')\<close>.\<close>

fun join_lines :: "string list \<Rightarrow> string" where
  "join_lines [] = []"
| "join_lines [l] = l"
| "join_lines (l # m # ls) = l @ CHR 0x0A # join_lines (m # ls)"

text \<open>\<^verbatim>\<open>text.replace(/\n/g, ' ')\<close>.\<close>

definition replace_newlines :: "string \<Rightarrow> string" where
  "replace_newlines s = map (\<lambda>c. if c = CHR 0x0A then CHR 0x20 else c) s"

definition getIndentationLevel :: "string \<Rightarrow> nat" where
  "getIndentationLevel line = length line - length (trimStart line)"

definition getIndentation :: "string \<Rightarrow> string" where
  "getIndentation line = take (getIndentationLevel line) line"

text \<open>
  The formatting that \<^verbatim>\<open>replaceAndAppendLine\<close> and \<^verbatim>\<open>editExistingLines\<close> both apply to
  the payload: the first line trimmed, every later line prefixed with the indentation.
\<close>

definition format_lines :: "string \<Rightarrow> string list \<Rightarrow> string list" where
  "format_lines indentation ls =
     (case ls of [] \<Rightarrow> [] | l # rest \<Rightarrow> trim l # map (\<lambda>line. indentation @ line) rest)"

subsection \<open>The editor\<close>

text \<open>
  Modelled from the spec: the operations of the external editor that the simulator
  calls, on a plain buffer of lines. \<^verbatim>\<open>getLineContent\<close> throws outside the document
  (\<^term>\<open>None\<close>); \<^verbatim>\<open>setPosition\<close> clamps the position to the document; the \<^verbatim>\<open>type\<close>
  command inserts one character at the cursor, a line feed splitting the line, with no
  automatic indentation or bracket closing; \<^verbatim>\<open>executeEdits\<close> replaces a range by a text.
  An editor without a text model ignores every command.
\<close>

definition getLineContent :: "string list \<Rightarrow> nat \<Rightarrow> string option" where
  "getLineContent ls n = (if 1 \<le> n \<and> n \<le> length ls then Some (ls ! (n - 1)) else None)"

definition getPosition :: "editor \<Rightarrow> position option" where
  "getPosition ed = (case ed_model ed of None \<Rightarrow> None | Some ls \<Rightarrow> Some (ed_position ed))"

definition validatePosition :: "string list \<Rightarrow> position \<Rightarrow> position" where
  "validatePosition ls p =
     (if lineNumber p < 1 then \<lparr> lineNumber = 1, column = 1 \<rparr>
      else if length ls < lineNumber p
      then \<lparr> lineNumber = length ls, column = length (ls ! (length ls - 1)) + 1 \<rparr>
      else if column p \<le> 1 then \<lparr> lineNumber = lineNumber p, column = 1 \<rparr>
      else \<lparr> lineNumber = lineNumber p,
             column = min (column p) (length (ls ! (lineNumber p - 1)) + 1) \<rparr>)"

definition setPosition :: "position \<Rightarrow> editor \<Rightarrow> editor" where
  "setPosition p ed =
     (case ed_model ed of
        None \<Rightarrow> ed
      | Some ls \<Rightarrow> ed\<lparr> ed_position := validatePosition ls p \<rparr>)"

record range =
  startLineNumber :: nat
  startColumn :: nat
  endLineNumber :: nat
  endColumn :: nat

fun glue :: "string \<Rightarrow> string list \<Rightarrow> string \<Rightarrow> string list" where
  "glue first [] lst = [first @ lst]"
| "glue first [x] lst = [first @ x @ lst]"
| "glue first (x # y # ys) lst = (first @ x) # butlast (y # ys) @ [last (y # ys) @ lst]"

definition replace_range :: "range \<Rightarrow> string \<Rightarrow> string list \<Rightarrow> string list" where
  "replace_range r text ls =
     (if 1 \<le> startLineNumber r \<and> startLineNumber r \<le> endLineNumber r
         \<and> endLineNumber r \<le> length ls
      then take (startLineNumber r - 1) ls
           @ glue (take (startColumn r - 1) (ls ! (startLineNumber r - 1)))
                  (split_lines text)
                  (drop (endColumn r - 1) (ls ! (endLineNumber r - 1)))
           @ drop (endLineNumber r) ls
      else ls)"

definition executeEdits :: "range \<Rightarrow> string \<Rightarrow> editor \<Rightarrow> editor" where
  "executeEdits r text ed =
     (case ed_model ed of
        None \<Rightarrow> ed
      | Some ls \<Rightarrow> ed\<lparr> ed_model := Some (replace_range r text ls) \<rparr>)"

definition type_char :: "char \<Rightarrow> editor \<Rightarrow> editor" where
  "type_char ch ed =
     (case ed_model ed of
        None \<Rightarrow> ed
      | Some ls \<Rightarrow>
          (let l = lineNumber (ed_position ed); c = column (ed_position ed)
           in if l < 1 \<or> length ls < l then ed
              else (let cur = ls ! (l - 1);
                        before = take (c - 1) cur;
                        after = drop (c - 1) cur
                    in if ch = CHR 0x0A
                       then ed\<lparr> ed_model := Some (take (l - 1) ls @ [before, after] @ drop l ls),
                                ed_position := \<lparr> lineNumber = l + 1, column = 1 \<rparr> \<rparr>
                       else ed\<lparr> ed_model := Some (ls[l - 1 := before @ ch # after]),
                                ed_position := \<lparr> lineNumber = l, column = c + 1 \<rparr> \<rparr>)))"

subsection \<open>Typing and the edit operations\<close>

datatype outcome = Returned | Threw

text \<open>
  One iteration of the loop of \<^verbatim>\<open>simulateTypingWithDelay\<close>: the character goes to the
  editor and into the history, with the typing lock as it is at that moment. The delay
  between two characters suspends the flow and changes no field.
\<close>

definition trigger_type :: "char \<Rightarrow> simulator \<Rightarrow> simulator" where
  "trigger_type ch s =
     s\<lparr> editor := map_option (type_char ch) (editor s),
        keystrokes := keystrokes s @ [(ch, isTyping s)] \<rparr>"

definition simulateTypingWithDelay :: "string \<Rightarrow> simulator \<Rightarrow> simulator" where
  "simulateTypingWithDelay text s = (if editor s = None then s else fold trigger_type text s)"

definition editor_setPosition :: "position \<Rightarrow> simulator \<Rightarrow> simulator" where
  "editor_setPosition p s = s\<lparr> editor := map_option (setPosition p) (editor s) \<rparr>"

definition editor_executeEdits :: "range \<Rightarrow> string \<Rightarrow> simulator \<Rightarrow> simulator" where
  "editor_executeEdits r text s = s\<lparr> editor := map_option (executeEdits r text) (editor s) \<rparr>"

text \<open>The \<^verbatim>\<open>finally\<close> block of every edit operation.\<close>

definition release_typing :: "outcome \<times> simulator \<Rightarrow> outcome \<times> simulator" where
  "release_typing rs = (fst rs, (snd rs)\<lparr> isTyping := False \<rparr>)"

text \<open>
  The guarded typing that appears four times in the source (unknown action, failed
  action, missing action, failed inference): taken only when the typing lock is free.
\<close>

definition guarded_typing :: "string \<Rightarrow> simulator \<Rightarrow> simulator" where
  "guarded_typing text s =
     (if \<not> isTyping s
      then (simulateTypingWithDelay text (s\<lparr> isTyping := True \<rparr>))\<lparr> isTyping := False \<rparr>
      else s)"

definition moveCursorToEndOfFile :: "simulator \<Rightarrow> simulator" where
  "moveCursorToEndOfFile s =
     (case editor s of
        None \<Rightarrow> s
      | Some ed \<Rightarrow>
          (case ed_model ed of
             None \<Rightarrow> s
           | Some ls \<Rightarrow>
               (case getLineContent ls (length ls) of
                  None \<Rightarrow> s
                | Some lastLine \<Rightarrow>
                    editor_setPosition
                      \<lparr> lineNumber = length ls, column = length lastLine + 1 \<rparr> s)))"

definition fillPartialLine :: "string \<Rightarrow> position \<Rightarrow> simulator \<Rightarrow> outcome \<times> simulator" where
  "fillPartialLine responseText pos s =
     (if editor s = None \<or> isTyping s then (Returned, s)
      else release_typing
        (let s1 = s\<lparr> isTyping := True \<rparr>;
             cleanText = trim (replace_newlines responseText);
             s2 = editor_setPosition pos s1
         in (Returned, simulateTypingWithDelay cleanText s2)))"

definition replaceAndAppendLine :: "string \<Rightarrow> position \<Rightarrow> simulator \<Rightarrow> outcome \<times> simulator" where
  "replaceAndAppendLine responseText pos s =
     (case editor s of
        None \<Rightarrow> (Returned, s)
      | Some ed \<Rightarrow>
          (case ed_model ed of
             None \<Rightarrow> (Returned, s)
           | Some ls \<Rightarrow>
               if isTyping s then (Returned, s)
               else release_typing
                 (let s1 = s\<lparr> isTyping := True \<rparr>
                  in case getLineContent ls (lineNumber pos) of
                       None \<Rightarrow> (Threw, s1)
                     | Some currentLine \<Rightarrow>
                         (let indentation = getIndentation currentLine;
                              s2 = editor_executeEdits
                                     \<lparr> startLineNumber = lineNumber pos,
                                       startColumn = length indentation + 1,
                                       endLineNumber = lineNumber pos,
                                       endColumn = length currentLine + 1 \<rparr> [] s1;
                              s3 = editor_setPosition
                                     \<lparr> lineNumber = lineNumber pos,
                                       column = length indentation + 1 \<rparr> s2;
                              formattedText =
                                join_lines (format_lines indentation (split_lines responseText))
                          in (Returned, simulateTypingWithDelay formattedText s3)))))"

definition editExistingLines :: "string \<Rightarrow> int \<Rightarrow> simulator \<Rightarrow> outcome \<times> simulator" where
  "editExistingLines responseText targetLine s =
     (case editor s of
        None \<Rightarrow> (Returned, s)
      | Some ed \<Rightarrow>
          (case ed_model ed of
             None \<Rightarrow> (Returned, s)
           | Some ls \<Rightarrow>
               if isTyping s then (Returned, s)
               else if targetLine < 1 \<or> int (length ls) < targetLine
               then (case getPosition ed of
                       Some pos \<Rightarrow> replaceAndAppendLine responseText pos s
                     | None \<Rightarrow> (Returned, s))
               else release_typing
                 (let s1 = s\<lparr> isTyping := True \<rparr>
                  in case getLineContent ls (nat targetLine) of
                       None \<Rightarrow> (Threw, s1)
                     | Some currentLine \<Rightarrow>
                         (let indentation = getIndentation currentLine;
                              s2 = editor_executeEdits
                                     \<lparr> startLineNumber = nat targetLine,
                                       startColumn = length indentation + 1,
                                       endLineNumber = nat targetLine,
                                       endColumn = length currentLine + 1 \<rparr> [] s1;
                              s3 = editor_setPosition
                                     \<lparr> lineNumber = nat targetLine,
                                       column = length indentation + 1 \<rparr> s2;
                              formattedText =
                                join_lines (format_lines indentation (split_lines responseText));
                              s4 = simulateTypingWithDelay formattedText s3
                          in (Returned, moveCursorToEndOfFile s4)))))"

definition addInlineComment :: "string \<Rightarrow> position \<Rightarrow> simulator \<Rightarrow> outcome \<times> simulator" where
  "addInlineComment responseText pos s =
     (case editor s of
        None \<Rightarrow> (Returned, s)
      | Some ed \<Rightarrow>
          (case ed_model ed of
             None \<Rightarrow> (Returned, s)
           | Some ls \<Rightarrow>
               if isTyping s then (Returned, s)
               else release_typing
                 (let s1 = s\<lparr> isTyping := True \<rparr>
                  in case getLineContent ls (lineNumber pos) of
                       None \<Rightarrow> (Threw, s1)
                     | Some currentLine \<Rightarrow>
                         (let cleanComment = trim (replace_newlines responseText);
                              commentText =
                                (if trim currentLine = [] then ''# '' @ cleanComment
                                 else '' # '' @ cleanComment);
                              s2 = editor_setPosition
                                     \<lparr> lineNumber = lineNumber pos,
                                       column = length currentLine + 1 \<rparr> s1
                          in (Returned, simulateTypingWithDelay commentText s2)))))"

definition addCommentAtLine :: "string \<Rightarrow> int \<Rightarrow> simulator \<Rightarrow> outcome \<times> simulator" where
  "addCommentAtLine responseText targetLine s =
     (case editor s of
        None \<Rightarrow> (Returned, s)
      | Some ed \<Rightarrow>
          (case ed_model ed of
             None \<Rightarrow> (Returned, s)
           | Some ls \<Rightarrow>
               if isTyping s then (Returned, s)
               else if targetLine < 1 \<or> int (length ls) < targetLine
               then (case getPosition ed of
                       Some pos \<Rightarrow> addInlineComment responseText pos s
                     | None \<Rightarrow> (Returned, s))
               else release_typing
                 (let s1 = s\<lparr> isTyping := True \<rparr>
                  in case getLineContent ls (nat targetLine) of
                       None \<Rightarrow> (Threw, s1)
                     | Some targetLineContent \<Rightarrow>
                         (let indentation = getIndentation targetLineContent;
                              s2 = editor_setPosition
                                     \<lparr> lineNumber = nat targetLine, column = 1 \<rparr> s1;
                              formattedComment =
                                join_lines
                                  (map (\<lambda>line. indentation @ ''# '' @ trim line)
                                     (split_lines responseText))
                                @ [CHR 0x0A];
                              s3 = simulateTypingWithDelay formattedComment s2
                          in (Returned, moveCursorToEndOfFile s3)))))"

text \<open>The \<^verbatim>\<open>switch\<close> of \<^verbatim>\<open>applyAction\<close>, and around it the \<^verbatim>\<open>catch\<close> that types a line feed.\<close>

definition dispatch_action ::
  "int \<Rightarrow> int \<Rightarrow> string \<Rightarrow> position \<Rightarrow> simulator \<Rightarrow> outcome \<times> simulator" where
  "dispatch_action actionIndex targetLine responseText currentPosition s =
     (if actionIndex = 0 then (Returned, s)
      else if actionIndex = 1 then fillPartialLine responseText currentPosition s
      else if actionIndex = 2 \<or> actionIndex = 3
      then replaceAndAppendLine responseText currentPosition s
      else if actionIndex = 4 then editExistingLines responseText targetLine s
      else if actionIndex = 5 then addInlineComment responseText currentPosition s
      else if actionIndex = 6 then addCommentAtLine responseText targetLine s
      else (Returned, guarded_typing responseText s))"

definition applyAction :: "int \<Rightarrow> int \<Rightarrow> string \<Rightarrow> position \<Rightarrow> simulator \<Rightarrow> simulator" where
  "applyAction actionIndex targetLine responseText currentPosition s =
     (case editor s of
        None \<Rightarrow> s
      | Some ed \<Rightarrow>
          (case ed_model ed of
             None \<Rightarrow> s
           | Some ls \<Rightarrow>
               (case dispatch_action actionIndex targetLine responseText currentPosition s of
                  (Returned, s1) \<Rightarrow> s1
                | (Threw, s1) \<Rightarrow> guarded_typing [CHR 0x0A] s1)))"

section \<open>Turns and schedules\<close>

subsection \<open>The inference service\<close>

text \<open>
  The state service is external. A request carries the text, the author, the timestep
  and the cursor; the answer is an action (index, target line, payload), no action, or
  a failure of the call. The service is a parameter of every turn: a function from the
  request to the outcome of the call.
\<close>

datatype actor = Human | Assistant

datatype inference_outcome = InferenceThrows | NoAction | Action int int string

record inference_request =
  req_text :: string
  req_author :: actor
  req_timestep :: int
  req_line :: nat
  req_column :: nat
  req_file_length :: nat
  req_cursorOffset :: nat

text \<open>Modelled from the spec: \<^verbatim>\<open>model.getValue()\<close> and \<^verbatim>\<open>model.getOffsetAt\<close> on the line buffer,
  with a line feed between two lines.\<close>

definition getValue :: "string list \<Rightarrow> string" where
  "getValue ls = join_lines ls"

definition getOffsetAt :: "string list \<Rightarrow> position \<Rightarrow> nat" where
  "getOffsetAt ls p =
     (let q = validatePosition ls p
      in sum_list (map (\<lambda>l. length l + 1) (take (lineNumber q - 1) ls)) + (column q - 1))"

definition problem_block :: "string \<Rightarrow> string" where
  "problem_block d =
     [CHR 0x27, CHR 0x27, CHR 0x27, CHR 0x0A] @ ''Problem: '' @ d
       @ [CHR 0x0A, CHR 0x27, CHR 0x27, CHR 0x27, CHR 0x0A]"

text \<open>
  The text sent, with \<^verbatim>\<open>problemBlockOffset\<close> and \<^verbatim>\<open>problemBlockLines\<close>: the problem
  description is put in front when there is one (a non-empty string) that the file
  does not contain.
\<close>

definition with_problem_block :: "string option \<Rightarrow> string \<Rightarrow> string \<times> nat \<times> nat" where
  "with_problem_block pd fileContent =
     (case pd of
        None \<Rightarrow> (fileContent, 0, 0)
      | Some d \<Rightarrow>
          if d \<noteq> [] \<and> \<not> sublist d fileContent
          then (problem_block d @ fileContent,
                length (problem_block d),
                length (split_lines (problem_block d)) - 1)
          else (fileContent, 0, 0))"

definition build_request :: "actor \<Rightarrow> simulator \<Rightarrow> string list \<Rightarrow> position \<Rightarrow> inference_request" where
  "build_request author s ls pos =
     (case with_problem_block (problemDescription s) (getValue ls) of
        (fullFileContent, problemBlockOffset, problemBlockLines) \<Rightarrow>
          \<lparr> req_text = fullFileContent,
            req_author = author,
            req_timestep = timestep s,
            req_line = lineNumber pos + problemBlockLines,
            req_column = column pos,
            req_file_length = length fullFileContent,
            req_cursorOffset = getOffsetAt ls pos + problemBlockOffset \<rparr>)"

definition adjust_target :: "simulator \<Rightarrow> string list \<Rightarrow> int \<Rightarrow> int" where
  "adjust_target s ls targetLine =
     (case with_problem_block (problemDescription s) (getValue ls) of
        (fullFileContent, problemBlockOffset, problemBlockLines) \<Rightarrow>
          if 0 < problemBlockOffset then max 1 (targetLine - int problemBlockLines)
          else targetLine)"

subsection \<open>One turn\<close>

text \<open>
  The \<^verbatim>\<open>try\<close> block of \<^verbatim>\<open>generateAndApplyHumanAction\<close>, entered with the processing lock
  set. The delay before the request suspends the flow and changes no field.
\<close>

definition human_try ::
  "(inference_request \<Rightarrow> inference_outcome) \<Rightarrow> editor \<Rightarrow> simulator \<Rightarrow> outcome \<times> simulator" where
  "human_try service ed s =
     (case ed_model ed of
        None \<Rightarrow> (Returned, s)
      | Some ls \<Rightarrow>
          (case getPosition ed of
             None \<Rightarrow> (Returned, s)
           | Some pos \<Rightarrow>
               (let request = build_request Human s ls pos;
                    s1 = s\<lparr> timestep := timestep s + 1 \<rparr>
                in case service request of
                     InferenceThrows \<Rightarrow> (Threw, s1)
                   | NoAction \<Rightarrow> (Returned, guarded_typing [CHR 0x0A] s1)
                   | Action actionIndex targetLine responseText \<Rightarrow>
                       (Returned,
                        applyAction actionIndex (adjust_target s ls targetLine)
                          responseText pos s1))))"

definition generateAndApplyHumanAction ::
  "(inference_request \<Rightarrow> inference_outcome) \<Rightarrow> simulator \<Rightarrow> simulator" where
  "generateAndApplyHumanAction service s =
     (case editor s of
        None \<Rightarrow> s
      | Some ed \<Rightarrow>
          if isProcessing s then s
          else (case human_try service ed (s\<lparr> isProcessing := True \<rparr>) of
                  (Returned, s1) \<Rightarrow> s1\<lparr> isProcessing := False \<rparr>
                | (Threw, s1) \<Rightarrow> (guarded_typing [CHR 0x0A] s1)\<lparr> isProcessing := False \<rparr>))"

definition assistant_try ::
  "(inference_request \<Rightarrow> inference_outcome) \<Rightarrow> editor \<Rightarrow> simulator \<Rightarrow> outcome \<times> simulator" where
  "assistant_try service ed s =
     (case ed_model ed of
        None \<Rightarrow> (Returned, s)
      | Some ls \<Rightarrow>
          (case getPosition ed of
             None \<Rightarrow> (Returned, s)
           | Some pos \<Rightarrow>
               (let request = build_request Assistant s ls pos;
                    s1 = s\<lparr> timestep := timestep s + 1 \<rparr>
                in case service request of
                     InferenceThrows \<Rightarrow> (Threw, s1)
                   | NoAction \<Rightarrow> (Returned, s1)
                   | Action actionIndex targetLine responseText \<Rightarrow>
                       (Returned,
                        applyAction actionIndex (adjust_target s ls targetLine)
                          responseText pos s1))))"

definition generateAndApplyAssistantAction ::
  "(inference_request \<Rightarrow> inference_outcome) \<Rightarrow> simulator \<Rightarrow> simulator" where
  "generateAndApplyAssistantAction service s =
     (case editor s of
        None \<Rightarrow> s
      | Some ed \<Rightarrow>
          if isProcessing s then s
          else (case assistant_try service ed (s\<lparr> isProcessing := True \<rparr>) of
                  (r, s1) \<Rightarrow> s1\<lparr> isProcessing := False \<rparr>))"

definition simulateTyping :: "string \<Rightarrow> simulator \<Rightarrow> simulator" where
  "simulateTyping cs s =
     (case editor s of
        None \<Rightarrow> s
      | Some ed \<Rightarrow>
          (case getPosition ed of
             None \<Rightarrow> s
           | Some pos \<Rightarrow>
               (let s1 = editor_executeEdits
                           \<lparr> startLineNumber = lineNumber pos, startColumn = column pos,
                             endLineNumber = lineNumber pos, endColumn = column pos \<rparr> cs s;
                    lines = split_lines cs
                in editor_setPosition
                     (if 1 < length lines
                      then \<lparr> lineNumber = lineNumber pos + (length lines - 1),
                             column = length (last lines) + 1 \<rparr>
                      else \<lparr> lineNumber = lineNumber pos, column = column pos + length cs \<rparr>)
                     s1)))"

definition executeAction ::
  "(inference_request \<Rightarrow> inference_outcome) \<Rightarrow> simulation_action \<Rightarrow> simulator \<Rightarrow> simulator" where
  "executeAction service action s =
     (case editor s of
        None \<Rightarrow> s
      | Some ed \<Rightarrow>
          (let s1 = (case action of
                       StateServiceHuman \<Rightarrow> generateAndApplyHumanAction service s
                     | StateServiceAssistant \<Rightarrow> generateAndApplyAssistantAction service s
                     | TypeAction payload \<Rightarrow>
                         (case payload of
                            Some cs \<Rightarrow> if cs \<noteq> [] then simulateTyping cs s else s
                          | None \<Rightarrow> s)
                     | CursorMoveAction payload \<Rightarrow>
                         (case payload of Some p \<Rightarrow> editor_setPosition p s | None \<Rightarrow> s)
                     | WaitAction payload \<Rightarrow> s
                     | OtherAction \<Rightarrow> s)
           in s1\<lparr> stats := (stats s1)\<lparr> totalActions := totalActions (stats s1) + 1 \<rparr> \<rparr>))"

subsection \<open>The paired schedule\<close>

text \<open>
  The points at which \<^verbatim>\<open>runSequence\<close> is suspended, by loop and iteration. While it is
  suspended at one of them, the host may call \<^verbatim>\<open>stop()\<close>; the synchronous part of that
  call is what the sequence sees when it resumes.
\<close>

datatype await_point =
    AfterHumanTurn nat
  | AfterFirstWait nat
  | AfterAssistantTurn nat
  | AfterSecondWait nat
  | AfterFollowUpTurn nat
  | AfterFollowUpWait nat

record run_env =
  service :: "inference_request \<Rightarrow> inference_outcome"
  interrupt :: "await_point \<Rightarrow> bool"
  host_stop :: stop_env
  final_stop :: stop_env

definition resume_at :: "run_env \<Rightarrow> await_point \<Rightarrow> simulator \<Rightarrow> simulator" where
  "resume_at env p s = (if interrupt env p then stop_begin (host_stop env) s else s)"

text \<open>\<^verbatim>\<open>await this.executeAction(...)\<close> and \<^verbatim>\<open>await this.simulateWait(...)\<close> inside the
  sequence, entered into the schedule history.\<close>

definition await_turn :: "run_env \<Rightarrow> simulation_action \<Rightarrow> await_point \<Rightarrow> simulator \<Rightarrow> simulator" where
  "await_turn env action p s =
     resume_at env p
       (executeAction (service env) action (s\<lparr> schedule_log := schedule_log s @ [Attempt action] \<rparr>))"

definition await_wait :: "run_env \<Rightarrow> int \<Rightarrow> await_point \<Rightarrow> simulator \<Rightarrow> simulator" where
  "await_wait env ms p s = resume_at env p (s\<lparr> schedule_log := schedule_log s @ [Pause ms] \<rparr>)"

function pair_loop :: "run_env \<Rightarrow> int \<Rightarrow> int \<Rightarrow> int \<Rightarrow> nat \<Rightarrow> simulator \<Rightarrow> simulator" where
  "pair_loop env intervalMs assistantLimit followUpHumans i s =
     (if int i < assistantLimit \<and> isRunning s
      then (let s1 = await_turn env StateServiceHuman (AfterHumanTurn i) s;
                s2 = s1\<lparr> humanActionsPerformed := humanActionsPerformed s1 + 1 \<rparr>
            in if \<not> isRunning s2 then s2
               else (let s3 = (if 0 < intervalMs
                               then await_wait env intervalMs (AfterFirstWait i) s2 else s2)
                     in if \<not> isRunning s3 then s3
                        else (let s4 = await_turn env StateServiceAssistant (AfterAssistantTurn i) s3;
                                  s5 = s4\<lparr> assistantActionsPerformed :=
                                             assistantActionsPerformed s4 + 1 \<rparr>
                              in if \<not> isRunning s5 then s5
                                 else pair_loop env intervalMs assistantLimit followUpHumans (Suc i)
                                        (if 0 < intervalMs
                                            \<and> (int i < assistantLimit - 1 \<or> 0 < followUpHumans)
                                         then await_wait env intervalMs (AfterSecondWait i) s5
                                         else s5))))
      else s)"
  by pat_completeness auto
termination
  by (relation "measure (\<lambda>(env, intervalMs, assistantLimit, followUpHumans, i, s).
        nat (assistantLimit - int i))") auto

declare pair_loop.simps [simp del]

function follow_loop :: "run_env \<Rightarrow> int \<Rightarrow> int \<Rightarrow> nat \<Rightarrow> simulator \<Rightarrow> simulator" where
  "follow_loop env intervalMs followUpHumans j s =
     (if int j < followUpHumans \<and> isRunning s
      then (let s1 = await_turn env StateServiceHuman (AfterFollowUpTurn j) s;
                s2 = s1\<lparr> humanActionsPerformed := humanActionsPerformed s1 + 1 \<rparr>
            in if \<not> isRunning s2 then s2
               else follow_loop env intervalMs followUpHumans (Suc j)
                      (if 0 < intervalMs \<and> int j < followUpHumans - 1
                       then await_wait env intervalMs (AfterFollowUpWait j) s2
                       else s2))
      else s)"
  by pat_completeness auto
termination
  by (relation "measure (\<lambda>(env, intervalMs, followUpHumans, j, s).
        nat (followUpHumans - int j))") auto

declare follow_loop.simps [simp del]

text \<open>
  \<^verbatim>\<open>runSequence\<close> of \<^verbatim>\<open>startZeroStyleSequence\<close>. The three constants are read once, before
  the loops. No operation of a turn throws in this model, so the \<^verbatim>\<open>catch\<close> is not
  entered; the \<^verbatim>\<open>finally\<close> stops a sequence that is still running. The result is
  \<^term>\<open>None\<close> when that \<^verbatim>\<open>stop()\<close> never returns.
\<close>

definition runSequence :: "run_env \<Rightarrow> simulator \<Rightarrow> simulator option" where
  "runSequence env s =
     (let intervalMs = (case cfg_intervalMs (config s) of
                          Some v \<Rightarrow> if v = 0 then 2500 else v
                        | None \<Rightarrow> 2500);
          assistantLimit = (case maxAssistantActions s of Some v \<Rightarrow> v | None \<Rightarrow> 0);
          followUpHumans = max 1 (humanFollowUpActions s);
          s1 = pair_loop env intervalMs assistantLimit followUpHumans 0 s;
          s2 = (if isRunning s1 then follow_loop env intervalMs followUpHumans 0 s1 else s1)
      in if isRunning s2 then stop (final_stop env) s2 else Some s2)"

subsection \<open>Starting\<close>

definition simulateEditorClick :: "simulator \<Rightarrow> simulator" where
  "simulateEditorClick s =
     (case editor s of
        None \<Rightarrow> s
      | Some ed \<Rightarrow>
          (case ed_model ed of
             None \<Rightarrow> s
           | Some ls \<Rightarrow>
               (case getLineContent ls (length ls) of
                  None \<Rightarrow> s
                | Some lastLine \<Rightarrow>
                    editor_setPosition
                      \<lparr> lineNumber = length ls, column = length lastLine + 1 \<rparr> s)))"

datatype schedule = PairedSchedule | PeriodicSchedule

text \<open>
  \<^verbatim>\<open>start()\<close> up to the choice of the schedule: the state it leaves, and the schedule it
  launches (\<^term>\<open>None\<close> when it returns at once). The periodic schedule arms the
  interval timer.
\<close>

definition start :: "int \<Rightarrow> simulator \<Rightarrow> simulator \<times> schedule option" where
  "start now s =
     (if isRunning s \<or> editor s = None then (s, None)
      else (let s1 = s\<lparr> isRunning := True, startTime := now \<rparr>;
                s2 = s1\<lparr> stats := (stats s1)\<lparr> episodesCreated := episodesCreated (stats s1) + 1 \<rparr> \<rparr>;
                s3 = simulateEditorClick s2
            in if (case maxAssistantActions s3 of Some v \<Rightarrow> v \<noteq> 0 \<and> 0 < v | None \<Rightarrow> False)
               then (s3, Some PairedSchedule)
               else (s3\<lparr> intervalId := Some 1 \<rparr>, Some PeriodicSchedule)))"

text \<open>One tick of the periodic schedule, with the closure's \<^verbatim>\<open>actionCount\<close>.\<close>

definition periodic_tick ::
  "(inference_request \<Rightarrow> inference_outcome) \<Rightarrow> stop_env \<Rightarrow> int \<Rightarrow> nat \<times> simulator
     \<Rightarrow> nat \<times> simulator" where
  "periodic_tick srv e now cs =
     (case cs of (actionCount, s) \<Rightarrow>
        (let maxActions = (case cfg_maxActions (config s) of
                             Some v \<Rightarrow> if v = 0 then 50 else v | None \<Rightarrow> 50);
             duration = (case cfg_durationMs (config s) of
                           Some v \<Rightarrow> if v = 0 then 300000 else v | None \<Rightarrow> 300000)
         in if \<not> isRunning s \<or> editor s = None then (actionCount, stop_begin e s)
            else if maxActions \<le> int actionCount \<or> duration \<le> now - startTime s
            then (actionCount, stop_begin e s)
            else (Suc actionCount, executeAction srv StateServiceHuman s)))"

text \<open>A run of the paired schedule: \<^verbatim>\<open>start()\<close> and the sequence it launches, to its end.\<close>

definition paired_run :: "run_env \<Rightarrow> int \<Rightarrow> simulator \<Rightarrow> simulator option" where
  "paired_run env now s =
     (case start now s of
        (s1, Some PairedSchedule) \<Rightarrow> runSequence env s1
      | (s1, _) \<Rightarrow> Some s1)"

definition attempts :: "schedule_event list \<Rightarrow> simulation_action list" where
  "attempts evs = concat (map (\<lambda>e. case e of Attempt a \<Rightarrow> [a] | Pause ms \<Rightarrow> []) evs)"

text \<open>Surroundings in which nobody interrupts and the service proposes no action.\<close>

definition quiet_stop :: stop_env where
  "quiet_stop = \<lparr> now_duration = 0, now_lastRun = 0, dispatch_throws = False,
                  acks_in_dispatch = 0, acks_before_timeout = 1, acks_after_timeout = 0,
                  close_throws = False \<rparr>"

definition quiet_env :: run_env where
  "quiet_env = \<lparr> service = (\<lambda>request. NoAction), interrupt = (\<lambda>p. False),
                 host_stop = quiet_stop, final_stop = quiet_stop \<rparr>"

text \<open>One assistant action with a provided follow-up count of 0, which construction
  raises to 1; two assistant actions and three follow-ups.\<close>

definition one_pair_config :: simulation_config where
  "one_pair_config =
     empty_config\<lparr> cfg_maxAssistantActions := Some 1, cfg_humanFollowUpActions := Some 0 \<rparr>"

definition two_pair_config :: simulation_config where
  "two_pair_config =
     empty_config\<lparr> cfg_maxAssistantActions := Some 2, cfg_humanFollowUpActions := Some 3 \<rparr>"

text \<open>\<open>turn_frame s s'\<close>: \<open>s'\<close> differs from \<open>s\<close> at most in what a turn may touch.\<close>

definition turn_frame :: "simulator \<Rightarrow> simulator \<Rightarrow> bool" where
  "turn_frame s s' \<longleftrightarrow>
     s' = s\<lparr> editor := editor s', stats := stats s', isProcessing := isProcessing s',
             isTyping := isTyping s', timestep := timestep s', keystrokes := keystrokes s' \<rparr>"

subsection \<open>Specification predicates for the typing lock\<close>

text \<open>
  \<open>lock_discipline s s'\<close>: going from \<open>s\<close> to \<open>s'\<close> only added keystrokes that were typed
  while the typing lock was held, and the lock is free in \<open>s'\<close>.
\<close>

definition lock_discipline :: "simulator \<Rightarrow> simulator \<Rightarrow> bool" where
  "lock_discipline s s' \<longleftrightarrow>
     \<not> isTyping s'
     \<and> take (length (keystrokes s)) (keystrokes s') = keystrokes s
     \<and> list_all snd (drop (length (keystrokes s)) (keystrokes s'))"

text \<open>\<open>typing_frame s s'\<close>: \<open>s'\<close> differs from \<open>s\<close> at most in the editor, the keystroke
  history and the typing lock.\<close>

definition typing_frame :: "simulator \<Rightarrow> simulator \<Rightarrow> bool" where
  "typing_frame s s' \<longleftrightarrow>
     s' = s\<lparr> editor := editor s', isTyping := isTyping s', keystrokes := keystrokes s' \<rparr>"

subsection \<open>A sample editor\<close>

text \<open>A three-line document with the cursor at the end of its second line, and a
  simulator constructed from the empty configuration and bound to it.\<close>

definition ed0 :: editor where
  "ed0 = \<lparr> ed_model = Some [''def f():'', ''    pass'', ''''],
           ed_position = \<lparr> lineNumber = 2, column = 9 \<rparr> \<rparr>"

definition sim0 :: simulator where
  "sim0 = setEditor (Some ed0) (constructor empty_config)"

section \<open>Properties of construction\<close>

lemma set_turn_limits_delays [simp]:
  "minActionDelayMs (set_turn_limits c s) = minActionDelayMs s"
  "maxActionDelayMs (set_turn_limits c s) = maxActionDelayMs s"
  "minTypingDelayMs (set_turn_limits c s) = minTypingDelayMs s"
  "maxTypingDelayMs (set_turn_limits c s) = maxTypingDelayMs s"
  by (simp_all add: set_turn_limits_def split: option.splits)

lemma accept_minActionDelayMs_sel [simp]:
  "minActionDelayMs (accept_minActionDelayMs c s) =
     (case cfg_minActionDelayMs c of
        Some v \<Rightarrow> if 0 \<le> v then v else minActionDelayMs s
      | None \<Rightarrow> minActionDelayMs s)"
  "maxActionDelayMs (accept_minActionDelayMs c s) = maxActionDelayMs s"
  "minTypingDelayMs (accept_minActionDelayMs c s) = minTypingDelayMs s"
  "maxTypingDelayMs (accept_minActionDelayMs c s) = maxTypingDelayMs s"
  "humanFollowUpActions (accept_minActionDelayMs c s) = humanFollowUpActions s"
  "maxAssistantActions (accept_minActionDelayMs c s) = maxAssistantActions s"
  by (simp_all add: accept_minActionDelayMs_def split: option.splits)

lemma accept_maxActionDelayMs_sel [simp]:
  "minActionDelayMs (accept_maxActionDelayMs c s) = minActionDelayMs s"
  "maxActionDelayMs (accept_maxActionDelayMs c s) =
     (case cfg_maxActionDelayMs c of
        Some v \<Rightarrow> if minActionDelayMs s \<le> v then v else maxActionDelayMs s
      | None \<Rightarrow> maxActionDelayMs s)"
  "minTypingDelayMs (accept_maxActionDelayMs c s) = minTypingDelayMs s"
  "maxTypingDelayMs (accept_maxActionDelayMs c s) = maxTypingDelayMs s"
  "humanFollowUpActions (accept_maxActionDelayMs c s) = humanFollowUpActions s"
  "maxAssistantActions (accept_maxActionDelayMs c s) = maxAssistantActions s"
  by (simp_all add: accept_maxActionDelayMs_def split: option.splits)

lemma accept_postActionPauseMs_sel [simp]:
  "minActionDelayMs (accept_postActionPauseMs c s) = minActionDelayMs s"
  "maxActionDelayMs (accept_postActionPauseMs c s) = maxActionDelayMs s"
  "minTypingDelayMs (accept_postActionPauseMs c s) = minTypingDelayMs s"
  "maxTypingDelayMs (accept_postActionPauseMs c s) = maxTypingDelayMs s"
  "humanFollowUpActions (accept_postActionPauseMs c s) = humanFollowUpActions s"
  "maxAssistantActions (accept_postActionPauseMs c s) = maxAssistantActions s"
  by (simp_all add: accept_postActionPauseMs_def split: option.splits)

lemma accept_minTypingDelayMs_sel [simp]:
  "minActionDelayMs (accept_minTypingDelayMs c s) = minActionDelayMs s"
  "maxActionDelayMs (accept_minTypingDelayMs c s) = maxActionDelayMs s"
  "minTypingDelayMs (accept_minTypingDelayMs c s) =
     (case cfg_minTypingDelayMs c of
        Some v \<Rightarrow> if 0 \<le> v then v else minTypingDelayMs s
      | None \<Rightarrow> minTypingDelayMs s)"
  "maxTypingDelayMs (accept_minTypingDelayMs c s) = maxTypingDelayMs s"
  "humanFollowUpActions (accept_minTypingDelayMs c s) = humanFollowUpActions s"
  "maxAssistantActions (accept_minTypingDelayMs c s) = maxAssistantActions s"
  by (simp_all add: accept_minTypingDelayMs_def split: option.splits)

lemma accept_maxTypingDelayMs_sel [simp]:
  "minActionDelayMs (accept_maxTypingDelayMs c s) = minActionDelayMs s"
  "maxActionDelayMs (accept_maxTypingDelayMs c s) = maxActionDelayMs s"
  "minTypingDelayMs (accept_maxTypingDelayMs c s) = minTypingDelayMs s"
  "maxTypingDelayMs (accept_maxTypingDelayMs c s) =
     (case cfg_maxTypingDelayMs c of
        Some v \<Rightarrow> if minTypingDelayMs s \<le> v then v else maxTypingDelayMs s
      | None \<Rightarrow> maxTypingDelayMs s)"
  "humanFollowUpActions (accept_maxTypingDelayMs c s) = humanFollowUpActions s"
  "maxAssistantActions (accept_maxTypingDelayMs c s) = maxAssistantActions s"
  by (simp_all add: accept_maxTypingDelayMs_def split: option.splits)

lemma set_delays_turn_limits [simp]:
  "humanFollowUpActions (set_delays c s) = humanFollowUpActions s"
  "maxAssistantActions (set_delays c s) = maxAssistantActions s"
  by (simp_all add: set_delays_def)

lemma constructor_action_delays:
  "minActionDelayMs (constructor c) =
     (case cfg_minActionDelayMs c of Some v \<Rightarrow> if 0 \<le> v then v else 350 | None \<Rightarrow> 350)"
  "maxActionDelayMs (constructor c) =
     (case cfg_maxActionDelayMs c of
        Some v \<Rightarrow> if minActionDelayMs (constructor c) \<le> v then v else 900
      | None \<Rightarrow> 900)"
  by (simp_all add: constructor_def set_delays_def initial_simulator_def split: option.splits)

lemma constructor_typing_delays:
  "minTypingDelayMs (constructor c) =
     (case cfg_minTypingDelayMs c of Some v \<Rightarrow> if 0 \<le> v then v else 45 | None \<Rightarrow> 45)"
  "maxTypingDelayMs (constructor c) =
     (case cfg_maxTypingDelayMs c of
        Some v \<Rightarrow> if minTypingDelayMs (constructor c) \<le> v then v else 130
      | None \<Rightarrow> 130)"
  by (simp_all add: constructor_def set_delays_def initial_simulator_def split: option.splits)

lemma constructor_empty: "constructor empty_config = initial_simulator empty_config"
  by (simp add: constructor_def set_delays_def set_turn_limits_def empty_config_def
      accept_minActionDelayMs_def accept_maxActionDelayMs_def accept_postActionPauseMs_def
      accept_minTypingDelayMs_def accept_maxTypingDelayMs_def initial_simulator_def)

lemma sim0_eq: "sim0 = (initial_simulator empty_config)\<lparr> editor := Some ed0 \<rparr>"
  by (simp add: sim0_def setEditor_def constructor_empty)

lemma constructor_follow_up:
  "humanFollowUpActions (constructor c) =
     (case cfg_maxAssistantActions c of
        Some a \<Rightarrow> max 1 (case cfg_humanFollowUpActions c of Some p \<Rightarrow> p | None \<Rightarrow> 1)
      | None \<Rightarrow>
          (case cfg_humanFollowUpActions c of
             Some h \<Rightarrow> max 0 h
           | None \<Rightarrow> (case cfg_maxActions c of Some m \<Rightarrow> max 0 m | None \<Rightarrow> 0)))"
  by (simp add: constructor_def set_turn_limits_def initial_simulator_def
      split: option.splits)

lemma constructor_assistant_limit:
  "maxAssistantActions (constructor c) = map_option (max 0) (cfg_maxAssistantActions c)"
  by (simp add: constructor_def set_turn_limits_def initial_simulator_def
      split: option.splits)

text \<open>
  C6, as stated, fails: a configuration that raises only the minimum action delay to
  1000 ms keeps the default maximum of 900 ms, so after construction the maximum is
  below the minimum (and likewise 200 ms against the default 130 ms for typing).
\<close>

theorem C6_delay_order_counterexample:
  "\<not> (minActionDelayMs (constructor (empty_config\<lparr> cfg_minActionDelayMs := Some 1000 \<rparr>))
        \<le> maxActionDelayMs (constructor (empty_config\<lparr> cfg_minActionDelayMs := Some 1000 \<rparr>)))
   \<and> \<not> (minTypingDelayMs (constructor (empty_config\<lparr> cfg_minTypingDelayMs := Some 200 \<rparr>))
        \<le> maxTypingDelayMs (constructor (empty_config\<lparr> cfg_minTypingDelayMs := Some 200 \<rparr>)))"
  by (simp add: constructor_action_delays constructor_typing_delays empty_config_def)

text \<open>
  C6, amended: construction is total and never rejects a configuration; the effective
  minima are never negative; the maximum is at least the minimum whenever the effective
  minimum does not exceed the default maximum (900 ms for actions, 130 ms for typing)
  or the provided maximum is at least the effective minimum; in the remaining case the
  stored maximum is the default and lies below the minimum, and \<^verbatim>\<open>randomDelay\<close> falls
  back to the minimum whenever the maximum is not above it.
\<close>

theorem C6_delay_order_amended:
  fixes c :: simulation_config
  defines "s \<equiv> constructor c"
  shows "0 \<le> minActionDelayMs s \<and> 0 \<le> minTypingDelayMs s
    \<and> (minActionDelayMs s \<le> 900
         \<or> (\<exists>v. cfg_maxActionDelayMs c = Some v \<and> minActionDelayMs s \<le> v)
        \<longrightarrow> minActionDelayMs s \<le> maxActionDelayMs s)
    \<and> (minTypingDelayMs s \<le> 130
         \<or> (\<exists>v. cfg_maxTypingDelayMs c = Some v \<and> minTypingDelayMs s \<le> v)
        \<longrightarrow> minTypingDelayMs s \<le> maxTypingDelayMs s)
    \<and> (\<not> minActionDelayMs s \<le> maxActionDelayMs s \<longrightarrow> maxActionDelayMs s = 900)
    \<and> (\<not> minTypingDelayMs s \<le> maxTypingDelayMs s \<longrightarrow> maxTypingDelayMs s = 130)
    \<and> (\<not> (minActionDelayMs s \<le> 900
            \<or> (\<exists>v. cfg_maxActionDelayMs c = Some v \<and> minActionDelayMs s \<le> v))
          \<longrightarrow> maxActionDelayMs s = 900 \<and> maxActionDelayMs s < minActionDelayMs s)
    \<and> (\<not> (minTypingDelayMs s \<le> 130
            \<or> (\<exists>v. cfg_maxTypingDelayMs c = Some v \<and> minTypingDelayMs s \<le> v))
          \<longrightarrow> maxTypingDelayMs s = 130 \<and> maxTypingDelayMs s < minTypingDelayMs s)
    \<and> (\<forall>r. maxActionDelayMs s \<le> minActionDelayMs s
          \<longrightarrow> randomDelay (minActionDelayMs s) (maxActionDelayMs s) r = of_int (minActionDelayMs s))
    \<and> (\<forall>r. maxTypingDelayMs s \<le> minTypingDelayMs s
          \<longrightarrow> randomDelay (minTypingDelayMs s) (maxTypingDelayMs s) r = of_int (minTypingDelayMs s))"
proof -
  have a: "0 \<le> minActionDelayMs s" and t: "0 \<le> minTypingDelayMs s"
    unfolding s_def
    by (simp_all add: constructor_action_delays(1) constructor_typing_delays(1)
        split: option.splits)
  have ma: "maxActionDelayMs s = 900 \<or> minActionDelayMs s \<le> maxActionDelayMs s"
    unfolding s_def
    by (cases "cfg_maxActionDelayMs c") (simp_all add: constructor_action_delays(2))
  have mt: "maxTypingDelayMs s = 130 \<or> minTypingDelayMs s \<le> maxTypingDelayMs s"
    unfolding s_def
    by (cases "cfg_maxTypingDelayMs c") (simp_all add: constructor_typing_delays(2))
  have xa: "cfg_maxActionDelayMs c = Some v \<Longrightarrow> minActionDelayMs s \<le> v
            \<Longrightarrow> maxActionDelayMs s = v" for v
    unfolding s_def by (subst constructor_action_delays(2)) simp
  have xt: "cfg_maxTypingDelayMs c = Some v \<Longrightarrow> minTypingDelayMs s \<le> v
            \<Longrightarrow> maxTypingDelayMs s = v" for v
    unfolding s_def by (subst constructor_typing_delays(2)) simp
  have na: "\<not> (\<exists>v. cfg_maxActionDelayMs c = Some v \<and> minActionDelayMs s \<le> v)
            \<Longrightarrow> maxActionDelayMs s = 900"
    unfolding s_def
    by (cases "cfg_maxActionDelayMs c") (simp_all add: constructor_action_delays(2))
  have nt: "\<not> (\<exists>v. cfg_maxTypingDelayMs c = Some v \<and> minTypingDelayMs s \<le> v)
            \<Longrightarrow> maxTypingDelayMs s = 130"
    unfolding s_def
    by (cases "cfg_maxTypingDelayMs c") (simp_all add: constructor_typing_delays(2))
  have o1: "0 \<le> minActionDelayMs s \<and> 0 \<le> minTypingDelayMs s" using a t by simp
  have o2: "minActionDelayMs s \<le> 900
         \<or> (\<exists>v. cfg_maxActionDelayMs c = Some v \<and> minActionDelayMs s \<le> v)
        \<longrightarrow> minActionDelayMs s \<le> maxActionDelayMs s"
    using ma xa by auto
  have o3: "minTypingDelayMs s \<le> 130
         \<or> (\<exists>v. cfg_maxTypingDelayMs c = Some v \<and> minTypingDelayMs s \<le> v)
        \<longrightarrow> minTypingDelayMs s \<le> maxTypingDelayMs s"
    using mt xt by auto
  have o4: "\<not> minActionDelayMs s \<le> maxActionDelayMs s \<longrightarrow> maxActionDelayMs s = 900"
    using ma by auto
  have o5: "\<not> minTypingDelayMs s \<le> maxTypingDelayMs s \<longrightarrow> maxTypingDelayMs s = 130"
    using mt by auto
  have o6: "\<not> (minActionDelayMs s \<le> 900
            \<or> (\<exists>v. cfg_maxActionDelayMs c = Some v \<and> minActionDelayMs s \<le> v))
          \<longrightarrow> maxActionDelayMs s = 900 \<and> maxActionDelayMs s < minActionDelayMs s"
    using na by auto
  have o7: "\<not> (minTypingDelayMs s \<le> 130
            \<or> (\<exists>v. cfg_maxTypingDelayMs c = Some v \<and> minTypingDelayMs s \<le> v))
          \<longrightarrow> maxTypingDelayMs s = 130 \<and> maxTypingDelayMs s < minTypingDelayMs s"
    using nt by auto
  have o8: "\<forall>r. maxActionDelayMs s \<le> minActionDelayMs s
          \<longrightarrow> randomDelay (minActionDelayMs s) (maxActionDelayMs s) r = of_int (minActionDelayMs s)"
    by (simp add: randomDelay_def)
  have o9: "\<forall>r. maxTypingDelayMs s \<le> minTypingDelayMs s
          \<longrightarrow> randomDelay (minTypingDelayMs s) (maxTypingDelayMs s) r = of_int (minTypingDelayMs s)"
    by (simp add: randomDelay_def)
  show ?thesis
    using o1 o2 o3 o4 o5 o6 o7 o8 o9 by blast
qed

theorem C6_delay_order_amended_witness:
  "minActionDelayMs (constructor (empty_config\<lparr> cfg_minActionDelayMs := Some 100,
        cfg_maxActionDelayMs := Some 50 \<rparr>)) = 100
   \<and> maxActionDelayMs (constructor (empty_config\<lparr> cfg_minActionDelayMs := Some 100,
        cfg_maxActionDelayMs := Some 50 \<rparr>)) = 900
   \<and> minActionDelayMs (constructor (empty_config\<lparr> cfg_minActionDelayMs := Some 100,
        cfg_maxActionDelayMs := Some 50 \<rparr>))
      \<le> maxActionDelayMs (constructor (empty_config\<lparr> cfg_minActionDelayMs := Some 100,
        cfg_maxActionDelayMs := Some 50 \<rparr>))"
  using C6_delay_order_amended
    [of "empty_config\<lparr> cfg_minActionDelayMs := Some 100, cfg_maxActionDelayMs := Some 50 \<rparr>"]
  by (simp add: constructor_action_delays empty_config_def)

text \<open>
  C7, as stated, fails in its last part: the floor of 1 is applied whenever
  \<^verbatim>\<open>maxAssistantActions\<close> is provided, also when it is 0. With an assistant limit of 0
  and a follow-up count of 0 the effective follow-up count is 1, not 0.
\<close>

theorem C7_follow_up_floor_counterexample:
  "maxAssistantActions (constructor (empty_config\<lparr> cfg_maxAssistantActions := Some 0,
        cfg_humanFollowUpActions := Some 0 \<rparr>)) = Some 0
   \<and> humanFollowUpActions (constructor (empty_config\<lparr> cfg_maxAssistantActions := Some 0,
        cfg_humanFollowUpActions := Some 0 \<rparr>)) = 1
   \<and> humanFollowUpActions (constructor (empty_config\<lparr> cfg_maxAssistantActions := Some 0,
        cfg_humanFollowUpActions := Some 0 \<rparr>)) \<noteq> max 0 0"
  by (simp add: constructor_follow_up constructor_assistant_limit empty_config_def)

text \<open>
  C7, amended: the effective follow-up count is never negative; whenever an assistant
  limit is provided (positive, zero or negative) it is the maximum of 1 and the provided
  follow-up count, or 1 when none is provided; only when the assistant limit is absent
  is there no floor of 1: the count is then the provided follow-up count floored at 0,
  else the provided \<^verbatim>\<open>maxActions\<close> floored at 0, else 0.
\<close>

theorem C7_follow_up_floor_amended:
  "0 \<le> humanFollowUpActions (constructor c)
   \<and> (\<forall>a. cfg_maxAssistantActions c = Some a \<longrightarrow>
         humanFollowUpActions (constructor c)
           = max 1 (case cfg_humanFollowUpActions c of Some p \<Rightarrow> p | None \<Rightarrow> 1))
   \<and> (cfg_maxAssistantActions c = None \<longrightarrow>
         humanFollowUpActions (constructor c)
           = (case cfg_humanFollowUpActions c of
                Some h \<Rightarrow> max 0 h
              | None \<Rightarrow> (case cfg_maxActions c of Some m \<Rightarrow> max 0 m | None \<Rightarrow> 0)))"
  by (auto simp: constructor_follow_up split: option.splits)

theorem C7_follow_up_floor_amended_witness:
  "humanFollowUpActions (constructor (empty_config\<lparr> cfg_maxAssistantActions := Some 2,
        cfg_humanFollowUpActions := Some 0 \<rparr>)) = 1
   \<and> humanFollowUpActions (constructor (empty_config\<lparr> cfg_humanFollowUpActions := Some 0 \<rparr>)) = 0"
  using C7_follow_up_floor_amended
    [of "empty_config\<lparr> cfg_maxAssistantActions := Some 2, cfg_humanFollowUpActions := Some 0 \<rparr>"]
    C7_follow_up_floor_amended [of "empty_config\<lparr> cfg_humanFollowUpActions := Some 0 \<rparr>"]
  by (simp add: empty_config_def)

section \<open>Properties of the shutdown handshake and of stopping\<close>

lemma resolveAndClear_resolved [simp]: "resolved h \<Longrightarrow> resolveAndClear h = h"
  by (simp add: resolveAndClear_def)

lemma fallback_resolved [simp]: "resolved h \<Longrightarrow> fallback h = h"
  by (simp add: fallback_def)

lemma resolveAndClear_pow_resolved [simp]: "resolved h \<Longrightarrow> (resolveAndClear ^^ n) h = h"
  by (induction n) simp_all

lemma resolveAndClear_pow_unresolved:
  "\<not> resolved h \<Longrightarrow> (resolveAndClear ^^ Suc n) h = resolveAndClear h"
  by (induction n) (simp_all add: resolveAndClear_def Let_def)

lemma resolveAndClear_pow_cases:
  "(resolveAndClear ^^ n) h = (if n = 0 \<or> resolved h then h else resolveAndClear h)"
  by (cases n) (simp_all del: funpow.simps add: resolveAndClear_pow_unresolved)

lemma completion_settled: "settled (completion e)"
  by (simp add: completion_def executor_def resolveAndClear_pow_cases timer_due_def
      fallback_def resolveAndClear_def new_handshake_def settled_def Let_def)

lemma stop_returns: "stop e s = Some (if isRunning s then close_host e (stop_sync e s) else s)"
  using completion_settled [of e] by (simp add: stop_def settled_def Let_def)

lemma stop_sync_not_running [simp]: "\<not> isRunning (stop_sync e s)"
  by (simp add: stop_sync_def Let_def split: option.splits)

lemma close_host_isRunning [simp]: "isRunning (close_host e s) = isRunning s"
  by (simp add: close_host_def)

text \<open>
  C10: whatever the listeners do and whether or not the \<^verbatim>\<open>try\<close> block throws, the
  promise's \<^verbatim>\<open>resolve\<close> has run exactly once when all callbacks are done, and no timer is
  left armed; a resolver called on a resolved handshake, and a fallback that fires on
  one, change nothing; the first resolution disarms a timer whose handle is set; and
  \<^verbatim>\<open>stop()\<close> returns.
\<close>

theorem C10_handshake_resolves_once:
  "resolveCalls (completion e) = 1
   \<and> resolved (completion e)
   \<and> \<not> timerArmed (completion e)
   \<and> (\<forall>h. resolved h \<longrightarrow>
          resolveAndClear h = h \<and> fallback h = h \<and> resolveCalls (timer_due h) = resolveCalls h)
   \<and> (\<forall>h. \<not> resolved h \<and> timeoutId h \<noteq> None \<longrightarrow>
          \<not> timerArmed (resolveAndClear h) \<and> resolveCalls (resolveAndClear h) = Suc (resolveCalls h))
   \<and> (\<exists>s'. stop e s = Some s')"
  using completion_settled [of e]
  by (auto simp: settled_def stop_returns resolveAndClear_def timer_due_def Let_def)

theorem C10_handshake_resolves_once_witness:
  "resolveCalls (completion \<lparr> now_duration = 10, now_lastRun = 10, dispatch_throws = False,
       acks_in_dispatch = 1, acks_before_timeout = 0, acks_after_timeout = 2,
       close_throws = False \<rparr>) = 1
   \<and> warned (completion \<lparr> now_duration = 10, now_lastRun = 10, dispatch_throws = False,
       acks_in_dispatch = 0, acks_before_timeout = 0, acks_after_timeout = 2,
       close_throws = False \<rparr>)"
  using C10_handshake_resolves_once [of "\<lparr> now_duration = 10, now_lastRun = 10,
       dispatch_throws = False, acks_in_dispatch = 1, acks_before_timeout = 0,
       acks_after_timeout = 2, close_throws = False \<rparr>"]
  by (simp add: completion_def executor_def resolveAndClear_pow_cases timer_due_def
      fallback_def resolveAndClear_def new_handshake_def Let_def)

text \<open>
  C8: on a simulator that is not running \<^verbatim>\<open>stop()\<close> returns at once and changes
  nothing; hence a second \<^verbatim>\<open>stop()\<close>, in any surroundings, returns the state the first
  one produced, whether it is called after the first has returned or while the first
  still awaits its handshake.
\<close>

theorem C8_stop_idempotent:
  "(\<not> isRunning s \<longrightarrow> stop e s = Some s)
   \<and> (\<exists>s1. stop e s = Some s1 \<and> \<not> isRunning s1 \<and> stop e' s1 = Some s1)
   \<and> stop e' (stop_begin e s) = Some (stop_begin e s)"
  by (simp add: stop_returns stop_begin_def)

theorem C8_stop_idempotent_witness:
  "\<exists>s1. stop \<lparr> now_duration = 50, now_lastRun = 51, dispatch_throws = False,
             acks_in_dispatch = 0, acks_before_timeout = 1, acks_after_timeout = 0,
             close_throws = False \<rparr>
          ((constructor empty_config)\<lparr> isRunning := True, startTime := 20 \<rparr>) = Some s1
     \<and> totalDurationMs (stats s1) = 30 \<and> \<not> isRunning s1
     \<and> stop \<lparr> now_duration = 99, now_lastRun = 99, dispatch_throws = True,
             acks_in_dispatch = 0, acks_before_timeout = 0, acks_after_timeout = 0,
             close_throws = True \<rparr> s1 = Some s1"
  using C8_stop_idempotent [of "(constructor empty_config)\<lparr> isRunning := True, startTime := 20 \<rparr>"
      "\<lparr> now_duration = 50, now_lastRun = 51, dispatch_throws = False,
             acks_in_dispatch = 0, acks_before_timeout = 1, acks_after_timeout = 0,
             close_throws = False \<rparr>"
      "\<lparr> now_duration = 99, now_lastRun = 99, dispatch_throws = True,
             acks_in_dispatch = 0, acks_before_timeout = 0, acks_after_timeout = 0,
             close_throws = True \<rparr>"]
  by (simp add: stop_returns stop_sync_def close_host_def constructor_def set_delays_def
      set_turn_limits_def initial_simulator_def empty_config_def
      accept_minActionDelayMs_def accept_maxActionDelayMs_def accept_postActionPauseMs_def
      accept_minTypingDelayMs_def accept_maxTypingDelayMs_def Let_def)

section \<open>Properties of the edit applier\<close>

subsection \<open>Typing into the buffer\<close>


lemma fold_trigger_type:
  "editor s = Some ed \<Longrightarrow>
   fold trigger_type text s =
     s\<lparr> editor := Some (fold type_char text ed),
        keystrokes := keystrokes s @ map (\<lambda>c. (c, isTyping s)) text \<rparr>"
proof (induction "text" arbitrary: s ed)
  case Nil
  then show ?case by simp
next
  case (Cons c cs)
  have "editor (trigger_type c s) = Some (type_char c ed)"
    using Cons.prems by (simp add: trigger_type_def)
  from Cons.IH [OF this] show ?case
    by (simp add: trigger_type_def)
qed

lemma simulateTypingWithDelay_bound:
  "editor s = Some ed \<Longrightarrow>
   simulateTypingWithDelay text s =
     s\<lparr> editor := Some (fold type_char text ed),
        keystrokes := keystrokes s @ map (\<lambda>c. (c, isTyping s)) text \<rparr>"
  by (simp add: simulateTypingWithDelay_def fold_trigger_type)

lemma type_char_plain:
  assumes "ed_model ed = Some (pre @ (a @ b) # post)"
    and "ed_position ed = \<lparr> lineNumber = Suc (length pre), column = Suc (length a) \<rparr>"
    and "ch \<noteq> CHR 0x0A"
  shows "type_char ch ed =
     \<lparr> ed_model = Some (pre @ (a @ ch # b) # post),
       ed_position = \<lparr> lineNumber = Suc (length pre), column = Suc (Suc (length a)) \<rparr> \<rparr>"
  using assms by (simp add: type_char_def Let_def nth_append list_update_append)

lemma type_char_newline:
  assumes "ed_model ed = Some (pre @ (a @ b) # post)"
    and "ed_position ed = \<lparr> lineNumber = Suc (length pre), column = Suc (length a) \<rparr>"
  shows "type_char (CHR 0x0A) ed =
     \<lparr> ed_model = Some (pre @ a # b # post),
       ed_position = \<lparr> lineNumber = Suc (Suc (length pre)), column = 1 \<rparr> \<rparr>"
  using assms by (simp add: type_char_def Let_def nth_append)

lemma type_text_plain:
  assumes "ed_model ed = Some (pre @ (a @ b) # post)"
    and "ed_position ed = \<lparr> lineNumber = Suc (length pre), column = Suc (length a) \<rparr>"
    and "CHR 0x0A \<notin> set t"
  shows "fold type_char t ed =
     \<lparr> ed_model = Some (pre @ (a @ t @ b) # post),
       ed_position = \<lparr> lineNumber = Suc (length pre), column = Suc (length a + length t) \<rparr> \<rparr>"
  using assms
proof (induction t arbitrary: a ed)
  case Nil
  then show ?case by simp
next
  case (Cons c cs)
  have c: "c \<noteq> CHR 0x0A" and cs: "CHR 0x0A \<notin> set cs" using Cons.prems(3) by auto
  let ?ed = "type_char c ed"
  have m: "ed_model ?ed = Some (pre @ ((a @ [c]) @ b) # post)"
    and p: "ed_position ?ed = \<lparr> lineNumber = Suc (length pre), column = Suc (length (a @ [c])) \<rparr>"
    by (simp_all add: type_char_plain [OF Cons.prems(1,2) c])
  show ?case using Cons.IH [OF m p cs] by simp
qed

lemma type_text_lines:
  assumes "ed_model ed = Some (pre @ a # post)"
    and "ed_position ed = \<lparr> lineNumber = Suc (length pre), column = Suc (length a) \<rparr>"
    and "\<forall>l \<in> set (t # ts). CHR 0x0A \<notin> set l"
  shows "fold type_char (join_lines (t # ts)) ed =
     \<lparr> ed_model = Some (pre @ (a @ t) # ts @ post),
       ed_position = \<lparr> lineNumber = Suc (length pre + length ts),
                       column = Suc (length (last ((a @ t) # ts))) \<rparr> \<rparr>"
  using assms
proof (induction ts arbitrary: pre a t ed)
  case Nil
  then show ?case using type_text_plain [of ed pre a "[]" post t] by simp
next
  case (Cons u us)
  let ?e1 = "fold type_char t ed"
  have e1: "?e1 = \<lparr> ed_model = Some (pre @ (a @ t) # post),
       ed_position = \<lparr> lineNumber = Suc (length pre), column = Suc (length a + length t) \<rparr> \<rparr>"
    using type_text_plain [of ed pre a "[]" post t] Cons.prems by simp
  let ?e2 = "type_char (CHR 0x0A) ?e1"
  have e2: "?e2 = \<lparr> ed_model = Some (pre @ (a @ t) # [] # post),
       ed_position = \<lparr> lineNumber = Suc (Suc (length pre)), column = 1 \<rparr> \<rparr>"
    using type_char_newline [of ?e1 pre "a @ t" "[]" post] by (simp add: e1)
  have m: "ed_model ?e2 = Some ((pre @ [a @ t]) @ [] # post)"
    and p: "ed_position ?e2 = \<lparr> lineNumber = Suc (length (pre @ [a @ t])), column = Suc (length ([]::string)) \<rparr>"
    by (simp_all add: e2)
  have nl: "\<forall>l \<in> set (u # us). CHR 0x0A \<notin> set l" using Cons.prems(3) by simp
  have "fold type_char (join_lines (t # u # us)) ed = fold type_char (join_lines (u # us)) ?e2"
    by simp
  also have "\<dots> = \<lparr> ed_model = Some ((pre @ [a @ t]) @ ([] @ u) # us @ post),
       ed_position = \<lparr> lineNumber = Suc (length (pre @ [a @ t]) + length us),
                       column = Suc (length (last (([] @ u) # us))) \<rparr> \<rparr>"
    by (rule Cons.IH [OF m p nl])
  finally show ?case by simp
qed

lemma split_lines_not_Nil [simp]: "split_lines s \<noteq> []"
  by (induction s) (auto split: list.splits)

lemma split_lines_no_newline: "l \<in> set (split_lines s) \<Longrightarrow> CHR 0x0A \<notin> set l"
  by (induction s arbitrary: l) (auto split: list.splits if_splits)

lemma join_lines_Cons_Cons: "join_lines ((c # l) # ls) = c # join_lines (l # ls)"
  by (cases ls) simp_all

lemma join_split_lines: "join_lines (split_lines s) = s"
  by (induction s) (auto split: list.splits simp: join_lines_Cons_Cons)

lemma getIndentation_takeWhile: "getIndentation l = takeWhile isWhiteSpace l"
proof -
  have "length (takeWhile isWhiteSpace l) + length (dropWhile isWhiteSpace l) = length l"
    by (metis length_append takeWhile_dropWhile_id)
  then have "getIndentationLevel l = length (takeWhile isWhiteSpace l)"
    by (simp add: getIndentationLevel_def trimStart_def)
  then show ?thesis
    by (simp add: getIndentation_def takeWhile_eq_take [symmetric])
qed

lemma getIndentation_trimStart: "getIndentation l @ trimStart l = l"
  by (simp add: getIndentation_takeWhile trimStart_def)

lemma getIndentation_white: "c \<in> set (getIndentation l) \<Longrightarrow> isWhiteSpace c"
  by (auto simp: getIndentation_takeWhile dest: set_takeWhileD)

lemma set_getIndentation: "set (getIndentation l) \<subseteq> set l"
  by (auto simp: getIndentation_takeWhile dest: set_takeWhileD)

lemma take_getIndentation: "take (length (getIndentation l)) l = getIndentation l"
  by (simp add: getIndentation_takeWhile takeWhile_eq_take [symmetric])

lemma set_trimStart: "set (trimStart l) \<subseteq> set l"
  by (auto simp: trimStart_def dest: set_dropWhileD)

lemma set_trimEnd: "set (trimEnd l) \<subseteq> set l"
  by (auto simp: trimEnd_def dest: set_dropWhileD)

lemma set_trim: "set (trim l) \<subseteq> set l"
  using set_trimEnd [of "trimStart l"] set_trimStart [of l] by (auto simp: trim_def)

lemma trimEnd_prefix: "\<exists>w. l = trimEnd l @ w \<and> (\<forall>c \<in> set w. isWhiteSpace c)"
proof -
  have "rev l = takeWhile isWhiteSpace (rev l) @ dropWhile isWhiteSpace (rev l)" by simp
  then have "l = rev (dropWhile isWhiteSpace (rev l)) @ rev (takeWhile isWhiteSpace (rev l))"
    by (metis rev_append rev_rev_ident)
  moreover have "\<forall>c \<in> set (rev (takeWhile isWhiteSpace (rev l))). isWhiteSpace c"
    by (auto dest: set_takeWhileD)
  ultimately show ?thesis unfolding trimEnd_def by blast
qed

lemma trimStart_trimEnd_no_lead: "trimStart (trimEnd (trimStart l)) = trimEnd (trimStart l)"
proof (cases "trimEnd (trimStart l)")
  case Nil
  then show ?thesis by (simp add: trimStart_def)
next
  case (Cons c cs)
  obtain w where w: "trimStart l = trimEnd (trimStart l) @ w" using trimEnd_prefix by blast
  then have "hd (trimStart l) = c" using Cons by (metis append_Cons list.sel(1))
  moreover have "trimStart l \<noteq> []" using w Cons by auto
  then have "\<not> isWhiteSpace (hd (trimStart l))"
    unfolding trimStart_def by (simp add: hd_dropWhile)
  ultimately show ?thesis using Cons by (simp add: trimStart_def)
qed

lemma trim_no_leading: "trimStart (trim l) = trim l"
  by (simp add: trim_def trimStart_trimEnd_no_lead)

lemma format_lines_no_newline:
  assumes "CHR 0x0A \<notin> set indentation"
  shows "l \<in> set (format_lines indentation (split_lines payload)) \<Longrightarrow> CHR 0x0A \<notin> set l"
proof -
  assume l: "l \<in> set (format_lines indentation (split_lines payload))"
  obtain f r where fr: "split_lines payload = f # r"
    by (cases "split_lines payload") simp_all
  have f: "CHR 0x0A \<notin> set f" and r: "\<forall>x \<in> set r. CHR 0x0A \<notin> set x"
    using split_lines_no_newline [of _ payload] fr by auto
  from l fr consider "l = trim f" | x where "x \<in> set r" "l = indentation @ x"
    by (auto simp: format_lines_def)
  then show ?thesis
    using f r assms set_trim [of f] by cases auto
qed

lemma clear_line:
  assumes "1 \<le> n" "n \<le> length ls"
  shows "replace_range \<lparr> startLineNumber = n,
            startColumn = length (getIndentation (ls ! (n - 1))) + 1,
            endLineNumber = n, endColumn = length (ls ! (n - 1)) + 1 \<rparr> [] ls
         = take (n - 1) ls @ getIndentation (ls ! (n - 1)) # drop n ls"
  using assms by (simp add: replace_range_def take_getIndentation)

lemma replaceAndAppendLine_effect:
  assumes ed: "editor s = Some ed" and m: "ed_model ed = Some ls"
    and free: "\<not> isTyping s"
    and lo: "1 \<le> lineNumber pos" and hi: "lineNumber pos \<le> length ls"
    and nl: "CHR 0x0A \<notin> set (ls ! (lineNumber pos - 1))"
    and sp: "split_lines responseText = first # rest"
  defines "ind \<equiv> getIndentation (ls ! (lineNumber pos - 1))"
  shows "replaceAndAppendLine responseText pos s =
     (Returned,
      s\<lparr> editor := Some
           \<lparr> ed_model = Some (take (lineNumber pos - 1) ls
                               @ (ind @ trim first) # map (\<lambda>line. ind @ line) rest
                               @ drop (lineNumber pos) ls),
             ed_position =
               \<lparr> lineNumber = lineNumber pos + length rest,
                 column = Suc (length (last ((ind @ trim first) # map (\<lambda>line. ind @ line) rest))) \<rparr> \<rparr>,
         keystrokes := keystrokes s
           @ map (\<lambda>c. (c, True)) (join_lines (trim first # map (\<lambda>line. ind @ line) rest)),
         isTyping := False \<rparr>)"
proof -
  let ?n = "lineNumber pos"
  let ?cur = "ls ! (?n - 1)"
  let ?pre = "take (?n - 1) ls"
  let ?post = "drop ?n ls"
  let ?s1 = "s\<lparr> isTyping := True \<rparr>"
  let ?r = "\<lparr> startLineNumber = ?n, startColumn = length ind + 1,
              endLineNumber = ?n, endColumn = length ?cur + 1 \<rparr>"
  let ?p = "\<lparr> lineNumber = ?n, column = length ind + 1 \<rparr>"
  let ?ed3 = "setPosition ?p (executeEdits ?r [] ed)"
  have glc: "getLineContent ls ?n = Some ?cur"
    using lo hi by (simp add: getLineContent_def)
  have lp: "length ?pre = ?n - 1" using hi by simp
  have cleared: "replace_range ?r [] ls = ?pre @ ind # ?post"
    unfolding ind_def by (rule clear_line [OF lo hi])
  have nth: "(?pre @ ind # ?post) ! (?n - 1) = ind"
    using lp by (metis nth_append_length)
  have len: "length (?pre @ ind # ?post) = length ls" using lo hi by simp
  have m3: "ed_model ?ed3 = Some (?pre @ ind # ?post)"
    using m cleared by (simp add: setPosition_def executeEdits_def)
  have p3: "ed_position ?ed3 = \<lparr> lineNumber = Suc (length ?pre), column = Suc (length ind) \<rparr>"
    using m cleared lo hi nth len lp
    by (simp add: setPosition_def executeEdits_def validatePosition_def)
  have indnl: "CHR 0x0A \<notin> set ind"
    using nl set_getIndentation [of ?cur] unfolding ind_def by auto
  have fl: "format_lines ind (split_lines responseText) = trim first # map (\<lambda>line. ind @ line) rest"
    by (simp add: format_lines_def sp)
  have nls: "\<forall>l \<in> set (trim first # map (\<lambda>line. ind @ line) rest). CHR 0x0A \<notin> set l"
    using format_lines_no_newline [OF indnl, of _ responseText] fl by metis
  have typed: "fold type_char (join_lines (trim first # map (\<lambda>line. ind @ line) rest)) ?ed3 =
     \<lparr> ed_model = Some (?pre @ (ind @ trim first) # map (\<lambda>line. ind @ line) rest @ ?post),
       ed_position = \<lparr> lineNumber = Suc (length ?pre + length (map (\<lambda>line. ind @ line) rest)),
          column = Suc (length (last ((ind @ trim first) # map (\<lambda>line. ind @ line) rest))) \<rparr> \<rparr>"
    by (rule type_text_lines [OF m3 p3 nls])
  have ln: "Suc (length ?pre + length (map (\<lambda>line. ind @ line) rest)) = ?n + length rest"
    using lp lo by simp
  let ?s3 = "editor_setPosition ?p (editor_executeEdits ?r [] ?s1)"
  let ?ft = "join_lines (trim first # map (\<lambda>line. ind @ line) rest)"
  have e3: "editor ?s3 = Some ?ed3"
    using ed by (simp add: editor_setPosition_def editor_executeEdits_def)
  have step: "replaceAndAppendLine responseText pos s
      = release_typing (Returned, simulateTypingWithDelay ?ft ?s3)"
    using ed m free glc fl by (simp add: replaceAndAppendLine_def Let_def ind_def)
  have s3typed: "simulateTypingWithDelay ?ft ?s3 =
      ?s3\<lparr> editor := Some (fold type_char ?ft ?ed3),
           keystrokes := keystrokes ?s3 @ map (\<lambda>c. (c, isTyping ?s3)) ?ft \<rparr>"
    by (rule simulateTypingWithDelay_bound [OF e3])
  have k3: "keystrokes ?s3 = keystrokes s" and t3: "isTyping ?s3 = True"
    by (simp_all add: editor_setPosition_def editor_executeEdits_def)
  show ?thesis
    unfolding step s3typed typed ln k3 t3 release_typing_def
    by (simp add: editor_setPosition_def editor_executeEdits_def)
qed



text \<open>
  C2: for a REPLACE\_AND\_APPEND action (index 2 or 3) at a cursor on line \<open>n\<close> of the
  document, with the typing lock free: the indentation \<open>ind\<close> is the leading white space
  of the line; the action clears the line down to \<open>ind\<close>, puts the cursor just after it
  and types the payload, whose first line is trimmed (no leading white space is left;
  \<^verbatim>\<open>trim\<close> also drops the trailing white space) and whose later lines are each
  prefixed with \<open>ind\<close>. In the buffer, line \<open>n\<close> becomes \<open>ind\<close> followed by the trimmed
  first payload line, the later payload lines follow as lines of their own, each behind
  \<open>ind\<close>, and the typing lock is free again.
\<close>

theorem C2_replace_and_append:
  assumes "actionIndex = 2 \<or> actionIndex = 3"
    and "editor s = Some ed" and "ed_model ed = Some ls"
    and "\<not> isTyping s"
    and "1 \<le> lineNumber pos" and "lineNumber pos \<le> length ls"
    and "CHR 0x0A \<notin> set (ls ! (lineNumber pos - 1))"
    and "split_lines responseText = first # rest"
  defines "cur \<equiv> ls ! (lineNumber pos - 1)"
  defines "ind \<equiv> getIndentation (ls ! (lineNumber pos - 1))"
  shows "ind @ trimStart cur = cur
    \<and> (\<forall>c \<in> set ind. isWhiteSpace c)
    \<and> trimStart (trim first) = trim first
    \<and> (\<exists>w. trimStart first = trim first @ w \<and> (\<forall>c \<in> set w. isWhiteSpace c))
    \<and> applyAction actionIndex targetLine responseText pos s =
        (simulateTypingWithDelay (join_lines (trim first # map (\<lambda>line. ind @ line) rest))
           (s\<lparr> isTyping := True,
               editor := Some \<lparr> ed_model = Some (ls[lineNumber pos - 1 := ind]),
                                ed_position = \<lparr> lineNumber = lineNumber pos,
                                                column = length ind + 1 \<rparr> \<rparr> \<rparr>))
          \<lparr> isTyping := False \<rparr>
    \<and> applyAction actionIndex targetLine responseText pos s =
        s\<lparr> editor := Some
             \<lparr> ed_model = Some (take (lineNumber pos - 1) ls
                                 @ (ind @ trim first) # map (\<lambda>line. ind @ line) rest
                                 @ drop (lineNumber pos) ls),
               ed_position =
                 \<lparr> lineNumber = lineNumber pos + length rest,
                   column = Suc (length (last ((ind @ trim first) # map (\<lambda>line. ind @ line) rest))) \<rparr> \<rparr>,
           keystrokes := keystrokes s
             @ map (\<lambda>c. (c, True)) (join_lines (trim first # map (\<lambda>line. ind @ line) rest)),
           isTyping := False \<rparr>"
proof -
  let ?n = "lineNumber pos"
  let ?ft = "join_lines (trim first # map (\<lambda>line. ind @ line) rest)"
  let ?mid = "s\<lparr> isTyping := True,
               editor := Some \<lparr> ed_model = Some (ls[?n - 1 := ind]),
                                ed_position = \<lparr> lineNumber = ?n, column = length ind + 1 \<rparr> \<rparr> \<rparr>"
  let ?final = "s\<lparr> editor := Some
             \<lparr> ed_model = Some (take (?n - 1) ls
                                 @ (ind @ trim first) # map (\<lambda>line. ind @ line) rest
                                 @ drop ?n ls),
               ed_position =
                 \<lparr> lineNumber = ?n + length rest,
                   column = Suc (length (last ((ind @ trim first) # map (\<lambda>line. ind @ line) rest))) \<rparr> \<rparr>,
           keystrokes := keystrokes s @ map (\<lambda>c. (c, True)) ?ft,
           isTyping := False \<rparr>"
  have eff: "replaceAndAppendLine responseText pos s = (Returned, ?final)"
    unfolding ind_def by (rule replaceAndAppendLine_effect [OF assms(2-8)])
  have app: "applyAction actionIndex targetLine responseText pos s = ?final"
    using assms(1-3) by (auto simp: applyAction_def dispatch_action_def eff)
  have upd: "ls[?n - 1 := ind] = take (?n - 1) ls @ ind # drop ?n ls"
    using assms(5,6) by (simp add: upd_conv_take_nth_drop)
  have lp: "length (take (?n - 1) ls) = ?n - 1" using assms(6) by simp
  have indnl: "CHR 0x0A \<notin> set ind"
    using assms(7) set_getIndentation [of "ls ! (?n - 1)"] unfolding ind_def by auto
  have fl: "format_lines ind (split_lines responseText) = trim first # map (\<lambda>line. ind @ line) rest"
    by (simp add: format_lines_def assms(8))
  have nls: "\<forall>l \<in> set (trim first # map (\<lambda>line. ind @ line) rest). CHR 0x0A \<notin> set l"
    using format_lines_no_newline [OF indnl, of _ responseText] fl by metis
  let ?edm = "\<lparr> ed_model = Some (take (?n - 1) ls @ ind # drop ?n ls),
               ed_position = \<lparr> lineNumber = Suc (length (take (?n - 1) ls)),
                               column = Suc (length ind) \<rparr> \<rparr>"
  have typed: "fold type_char ?ft ?edm =
     \<lparr> ed_model = Some (take (?n - 1) ls @ (ind @ trim first) # map (\<lambda>line. ind @ line) rest @ drop ?n ls),
       ed_position = \<lparr> lineNumber = Suc (length (take (?n - 1) ls) + length (map (\<lambda>line. ind @ line) rest)),
          column = Suc (length (last ((ind @ trim first) # map (\<lambda>line. ind @ line) rest))) \<rparr> \<rparr>"
    by (rule type_text_lines [OF _ _ nls]) simp_all
  have mid_ed: "editor ?mid = Some ?edm"
    using assms(5,6) upd by (simp add: min_def)
  have phases: "(simulateTypingWithDelay ?ft ?mid)\<lparr> isTyping := False \<rparr> = ?final"
    unfolding simulateTypingWithDelay_bound [OF mid_ed] typed
    using assms(5,6) upd by (simp add: min_def)
  obtain w where w: "trimStart first = trimEnd (trimStart first) @ w"
      "\<forall>c \<in> set w. isWhiteSpace c"
    using trimEnd_prefix [of "trimStart first"] by blast
  have "ind @ trimStart cur = cur"
    unfolding ind_def cur_def by (rule getIndentation_trimStart)
  moreover have "\<forall>c \<in> set ind. isWhiteSpace c"
    unfolding ind_def by (auto dest: getIndentation_white)
  moreover have "\<exists>w. trimStart first = trim first @ w \<and> (\<forall>c \<in> set w. isWhiteSpace c)"
    using w unfolding trim_def by blast
  ultimately show ?thesis
    using app phases trim_no_leading [of first] by simp
qed

theorem C2_replace_and_append_witness:
  "applyAction 3 0 (''  return 1 '' @ [CHR 0x0A] @ ''  x = 2'' @ [CHR 0x0A] @ ''y'')
       \<lparr> lineNumber = 2, column = 9 \<rparr> sim0 =
     sim0\<lparr> editor := Some
             \<lparr> ed_model = Some [''def f():'', ''    return 1'', ''      x = 2'', ''    y'', ''''],
               ed_position = \<lparr> lineNumber = 4, column = 6 \<rparr> \<rparr>,
           keystrokes := map (\<lambda>c. (c, True))
              (''return 1'' @ [CHR 0x0A] @ ''      x = 2'' @ [CHR 0x0A] @ ''    y''),
           isTyping := False \<rparr>"
proof -
  have ind: "getIndentation ''    pass'' = ''    ''"
    by (simp add: getIndentation_def getIndentationLevel_def trimStart_def isWhiteSpace_def)
  have tr: "trim ''  return 1 '' = ''return 1''"
    by (simp add: trim_def trimStart_def trimEnd_def isWhiteSpace_def)
  have sp: "split_lines (''  return 1 '' @ [CHR 0x0A] @ ''  x = 2'' @ [CHR 0x0A] @ ''y'')
       = [''  return 1 '', ''  x = 2'', ''y'']"
    by simp
  show ?thesis
    using C2_replace_and_append [of 3 sim0 ed0 "[''def f():'', ''    pass'', '''']"
        "\<lparr> lineNumber = 2, column = 9 \<rparr>" _ "''  return 1 ''" "[''  x = 2'', ''y'']" 0, OF _ _ _ _ _ _ _ sp]
    by (simp add: sim0_eq ed0_def initial_simulator_def ind tr simulateTypingWithDelay_def
        trigger_type_def type_char_def Let_def)
qed
subsection \<open>Frames and the typing lock\<close>


lemma typing_frame_refl [simp]: "typing_frame s s"
  by (simp add: typing_frame_def)

lemma typing_frame_trans: "typing_frame s s' \<Longrightarrow> typing_frame s' s'' \<Longrightarrow> typing_frame s s''"
proof -
  assume a: "typing_frame s s'" and b: "typing_frame s' s''"
  from b have "s'' = s'\<lparr> editor := editor s'', isTyping := isTyping s'', keystrokes := keystrokes s'' \<rparr>"
    by (simp add: typing_frame_def)
  also from a have "s' = s\<lparr> editor := editor s', isTyping := isTyping s', keystrokes := keystrokes s' \<rparr>"
    by (simp add: typing_frame_def)
  finally show ?thesis by (simp add: typing_frame_def)
qed

lemma typing_frame_update:
  "typing_frame s s' \<Longrightarrow> typing_frame s (s'\<lparr> isTyping := b \<rparr>)"
  "typing_frame s s' \<Longrightarrow> typing_frame s (s'\<lparr> editor := e \<rparr>)"
  "typing_frame s s' \<Longrightarrow> typing_frame s (s'\<lparr> keystrokes := k \<rparr>)"
  "typing_frame (s\<lparr> isTyping := b \<rparr>) s' \<Longrightarrow> typing_frame s s'"
proof -
  show "typing_frame s s' \<Longrightarrow> typing_frame s (s'\<lparr> isTyping := b \<rparr>)"
    by (rule typing_frame_trans [of s s']) (simp_all add: typing_frame_def)
  show "typing_frame s s' \<Longrightarrow> typing_frame s (s'\<lparr> editor := e \<rparr>)"
    by (rule typing_frame_trans [of s s']) (simp_all add: typing_frame_def)
  show "typing_frame s s' \<Longrightarrow> typing_frame s (s'\<lparr> keystrokes := k \<rparr>)"
    by (rule typing_frame_trans [of s s']) (simp_all add: typing_frame_def)
  show "typing_frame (s\<lparr> isTyping := b \<rparr>) s' \<Longrightarrow> typing_frame s s'"
    by (rule typing_frame_trans [of s "s\<lparr> isTyping := b \<rparr>"]) (simp_all add: typing_frame_def)
qed

lemma typing_frame_sel:
  assumes "typing_frame s s'"
  shows "isRunning s' = isRunning s" "isProcessing s' = isProcessing s"
    "stats s' = stats s" "timestep s' = timestep s" "config s' = config s"
    "humanActionsPerformed s' = humanActionsPerformed s"
    "assistantActionsPerformed s' = assistantActionsPerformed s"
    "problemDescription s' = problemDescription s"
    "closeOnStop s' = closeOnStop s" "startTime s' = startTime s"
    "intervalId s' = intervalId s" "host s' = host s"
    "maxAssistantActions s' = maxAssistantActions s"
    "humanFollowUpActions s' = humanFollowUpActions s"
proof -
  from assms have e: "s' = s\<lparr> editor := editor s', isTyping := isTyping s', keystrokes := keystrokes s' \<rparr>"
    by (simp add: typing_frame_def)
  show "isRunning s' = isRunning s" by (subst e) simp
  show "isProcessing s' = isProcessing s" by (subst e) simp
  show "stats s' = stats s" by (subst e) simp
  show "timestep s' = timestep s" by (subst e) simp
  show "config s' = config s" by (subst e) simp
  show "humanActionsPerformed s' = humanActionsPerformed s" by (subst e) simp
  show "assistantActionsPerformed s' = assistantActionsPerformed s" by (subst e) simp
  show "problemDescription s' = problemDescription s" by (subst e) simp
  show "closeOnStop s' = closeOnStop s" by (subst e) simp
  show "startTime s' = startTime s" by (subst e) simp
  show "intervalId s' = intervalId s" by (subst e) simp
  show "host s' = host s" by (subst e) simp
  show "maxAssistantActions s' = maxAssistantActions s" by (subst e) simp
  show "humanFollowUpActions s' = humanFollowUpActions s" by (subst e) simp
qed

lemma trigger_type_frame: "typing_frame s (trigger_type c s)"
  by (simp add: trigger_type_def typing_frame_def)

lemma fold_trigger_type_frame: "typing_frame s (fold trigger_type cs s)"
proof (induction cs arbitrary: s)
  case Nil
  show ?case by simp
next
  case (Cons c cs)
  show ?case
    using typing_frame_trans [OF trigger_type_frame Cons.IH] by simp
qed

lemma simulateTypingWithDelay_frame [simp]: "typing_frame s (simulateTypingWithDelay cs s)"
  by (simp add: simulateTypingWithDelay_def fold_trigger_type_frame)

lemma editor_setPosition_frame [simp]: "typing_frame s (editor_setPosition p s)"
  by (simp add: editor_setPosition_def typing_frame_def)

lemma editor_executeEdits_frame [simp]: "typing_frame s (editor_executeEdits r cs s)"
  by (simp add: editor_executeEdits_def typing_frame_def)

lemma moveCursorToEndOfFile_frame [simp]: "typing_frame s (moveCursorToEndOfFile s)"
  by (simp add: moveCursorToEndOfFile_def split: option.splits)

lemma guarded_typing_frame [simp]: "typing_frame s (guarded_typing cs s)"
proof (cases "isTyping s")
  case True
  then show ?thesis by (simp add: guarded_typing_def)
next
  case False
  have "typing_frame (s\<lparr> isTyping := True \<rparr>) (simulateTypingWithDelay cs (s\<lparr> isTyping := True \<rparr>))"
    by simp
  then have "typing_frame s (simulateTypingWithDelay cs (s\<lparr> isTyping := True \<rparr>))"
    by (rule typing_frame_update(4))
  then show ?thesis
    using False by (simp add: guarded_typing_def typing_frame_update(1))
qed


lemma editor_setPosition_sel [simp]:
  "keystrokes (editor_setPosition p s) = keystrokes s"
  "isTyping (editor_setPosition p s) = isTyping s"
  by (simp_all add: editor_setPosition_def)

lemma editor_executeEdits_sel [simp]:
  "keystrokes (editor_executeEdits r cs s) = keystrokes s"
  "isTyping (editor_executeEdits r cs s) = isTyping s"
  by (simp_all add: editor_executeEdits_def)

lemma moveCursorToEndOfFile_sel [simp]:
  "keystrokes (moveCursorToEndOfFile s) = keystrokes s"
  "isTyping (moveCursorToEndOfFile s) = isTyping s"
  by (simp_all add: moveCursorToEndOfFile_def split: option.splits)

lemma simulateTypingWithDelay_sel [simp]:
  "isTyping (simulateTypingWithDelay cs s) = isTyping s"
  "keystrokes (simulateTypingWithDelay cs s) =
     keystrokes s @ (if editor s = None then [] else map (\<lambda>c. (c, isTyping s)) cs)"
proof -
  show "isTyping (simulateTypingWithDelay cs s) = isTyping s"
    by (cases "editor s") (simp_all add: simulateTypingWithDelay_bound, simp add: simulateTypingWithDelay_def)
  show "keystrokes (simulateTypingWithDelay cs s) =
     keystrokes s @ (if editor s = None then [] else map (\<lambda>c. (c, isTyping s)) cs)"
    by (cases "editor s") (simp_all add: simulateTypingWithDelay_bound, simp add: simulateTypingWithDelay_def)
qed

lemma lock_discipline_typed:
  assumes "keystrokes s' = keystrokes s @ ks" and "\<forall>k \<in> set ks. snd k" and "\<not> isTyping s'"
  shows "lock_discipline s s'"
  using assms by (simp add: lock_discipline_def list_all_iff)

lemma lock_discipline_refl: "\<not> isTyping s \<Longrightarrow> lock_discipline s s"
  by (simp add: lock_discipline_def)

lemma lock_discipline_trans:
  assumes "lock_discipline s s'" and "lock_discipline s' s''"
  shows "lock_discipline s s''"
proof -
  from assms(1) obtain a where a: "keystrokes s' = keystrokes s @ a" "list_all snd a"
    unfolding lock_discipline_def by (metis append_take_drop_id)
  from assms(2) obtain b where b: "keystrokes s'' = keystrokes s' @ b" "list_all snd b"
    unfolding lock_discipline_def by (metis append_take_drop_id)
  have "keystrokes s'' = keystrokes s @ (a @ b)" using a b by simp
  moreover have "\<forall>k \<in> set (a @ b). snd k" using a b by (auto simp: list_all_iff)
  moreover have "\<not> isTyping s''" using assms(2) by (simp add: lock_discipline_def)
  ultimately show ?thesis by (rule lock_discipline_typed)
qed

lemma guarded_typing_lock: "\<not> isTyping s \<Longrightarrow> lock_discipline s (guarded_typing cs s)"
  by (simp add: guarded_typing_def lock_discipline_def list_all_iff)

lemma fillPartialLine_lock:
  "\<not> isTyping s \<Longrightarrow> lock_discipline s (snd (fillPartialLine cs pos s))"
  by (simp add: fillPartialLine_def release_typing_def Let_def lock_discipline_def list_all_iff)

lemma replaceAndAppendLine_lock:
  "\<not> isTyping s \<Longrightarrow> lock_discipline s (snd (replaceAndAppendLine cs pos s))"
  by (simp add: replaceAndAppendLine_def release_typing_def Let_def lock_discipline_def
      list_all_iff split: option.splits)

lemma addInlineComment_lock:
  "\<not> isTyping s \<Longrightarrow> lock_discipline s (snd (addInlineComment cs pos s))"
  by (simp add: addInlineComment_def release_typing_def Let_def lock_discipline_def
      list_all_iff split: option.splits)

lemma editExistingLines_lock:
  "\<not> isTyping s \<Longrightarrow> lock_discipline s (snd (editExistingLines cs n s))"
  using replaceAndAppendLine_lock [of s cs]
  by (simp add: editExistingLines_def release_typing_def Let_def lock_discipline_refl
      split: option.splits)
    (simp add: lock_discipline_def list_all_iff)

lemma addCommentAtLine_lock:
  "\<not> isTyping s \<Longrightarrow> lock_discipline s (snd (addCommentAtLine cs n s))"
  using addInlineComment_lock [of s cs]
  by (simp add: addCommentAtLine_def release_typing_def Let_def lock_discipline_refl
      split: option.splits)
    (simp add: lock_discipline_def list_all_iff)

lemma dispatch_action_lock:
  "\<not> isTyping s \<Longrightarrow> lock_discipline s (snd (dispatch_action i n cs pos s))"
  by (simp add: dispatch_action_def lock_discipline_refl fillPartialLine_lock
      replaceAndAppendLine_lock editExistingLines_lock addInlineComment_lock
      addCommentAtLine_lock guarded_typing_lock)

lemma applyAction_lock:
  assumes "\<not> isTyping s"
  shows "lock_discipline s (applyAction i n cs pos s)"
proof -
  obtain r s1 where d: "dispatch_action i n cs pos s = (r, s1)" by (cases "dispatch_action i n cs pos s")
  have l1: "lock_discipline s s1" using dispatch_action_lock [OF assms, of i n cs pos] d by simp
  then have "\<not> isTyping s1" by (simp add: lock_discipline_def)
  then have l2: "lock_discipline s1 (guarded_typing [CHR 0x0A] s1)" by (rule guarded_typing_lock)
  show ?thesis
    using assms l1 lock_discipline_trans [OF l1 l2] d
    by (cases r) (simp_all add: applyAction_def lock_discipline_refl split: option.splits)
qed

lemma release_typing_frame:
  "typing_frame (s\<lparr> isTyping := True \<rparr>) (snd rs) \<Longrightarrow> typing_frame s (snd (release_typing rs))"
  by (simp add: release_typing_def typing_frame_update(1) typing_frame_update(4))

lemma fillPartialLine_frame [simp]: "typing_frame s (snd (fillPartialLine cs pos s))"
  by (auto simp: fillPartialLine_def Let_def
      intro!: release_typing_frame typing_frame_trans [OF editor_setPosition_frame simulateTypingWithDelay_frame])

lemma replaceAndAppendLine_frame [simp]: "typing_frame s (snd (replaceAndAppendLine cs pos s))"
  by (auto simp: replaceAndAppendLine_def Let_def split: option.splits
      intro!: release_typing_frame
        typing_frame_trans [OF editor_executeEdits_frame
          typing_frame_trans [OF editor_setPosition_frame simulateTypingWithDelay_frame]])

lemma addInlineComment_frame [simp]: "typing_frame s (snd (addInlineComment cs pos s))"
  by (auto simp: addInlineComment_def Let_def split: option.splits
      intro!: release_typing_frame
        typing_frame_trans [OF editor_setPosition_frame simulateTypingWithDelay_frame])

lemma editExistingLines_frame [simp]: "typing_frame s (snd (editExistingLines cs n s))"
  by (auto simp: editExistingLines_def Let_def split: option.splits
      intro!: release_typing_frame
        typing_frame_trans [OF editor_executeEdits_frame
          typing_frame_trans [OF editor_setPosition_frame
            typing_frame_trans [OF simulateTypingWithDelay_frame moveCursorToEndOfFile_frame]]])

lemma addCommentAtLine_frame [simp]: "typing_frame s (snd (addCommentAtLine cs n s))"
  by (auto simp: addCommentAtLine_def Let_def split: option.splits
      intro!: release_typing_frame
        typing_frame_trans [OF editor_setPosition_frame
          typing_frame_trans [OF simulateTypingWithDelay_frame moveCursorToEndOfFile_frame]])

lemma dispatch_action_frame [simp]: "typing_frame s (snd (dispatch_action i n cs pos s))"
  by (simp add: dispatch_action_def)

lemma applyAction_frame [simp]: "typing_frame s (applyAction i n cs pos s)"
proof -
  obtain r s1 where d: "dispatch_action i n cs pos s = (r, s1)" by (cases "dispatch_action i n cs pos s")
  have f1: "typing_frame s s1" using dispatch_action_frame [of s i n cs pos] d by simp
  have f2: "typing_frame s (guarded_typing [CHR 0x0A] s1)"
    by (rule typing_frame_trans [OF f1 guarded_typing_frame])
  show ?thesis
    using f1 f2 d by (cases r) (simp_all add: applyAction_def split: option.splits)
qed


lemma lock_discipline_cong:
  "keystrokes a = keystrokes s \<Longrightarrow> keystrokes b = keystrokes s' \<Longrightarrow> isTyping b = isTyping s'
   \<Longrightarrow> lock_discipline a b = lock_discipline s s'"
  by (simp add: lock_discipline_def)

lemma human_try_lock:
  assumes "\<not> isTyping s"
  shows "lock_discipline s (snd (human_try srv ed s))"
proof -
  let ?s1 = "s\<lparr> timestep := timestep s + 1 \<rparr>"
  have free: "\<not> isTyping ?s1" using assms by simp
  have c: "lock_discipline ?s1 x = lock_discipline s x" for x
    by (rule lock_discipline_cong) simp_all
  have t: "lock_discipline s ?s1" using assms by (simp add: lock_discipline_def)
  have g: "lock_discipline s (guarded_typing cs ?s1)" for cs
    using guarded_typing_lock [OF free, of cs] by (simp only: c)
  have a: "lock_discipline s (applyAction i n cs pos ?s1)" for i n cs pos
    using applyAction_lock [OF free, of i n cs pos] by (simp only: c)
  show ?thesis
    using assms t g a
    by (simp add: human_try_def Let_def lock_discipline_refl
        split: option.splits inference_outcome.splits)
qed

lemma assistant_try_lock:
  assumes "\<not> isTyping s"
  shows "lock_discipline s (snd (assistant_try srv ed s))"
proof -
  let ?s1 = "s\<lparr> timestep := timestep s + 1 \<rparr>"
  have free: "\<not> isTyping ?s1" using assms by simp
  have c: "lock_discipline ?s1 x = lock_discipline s x" for x
    by (rule lock_discipline_cong) simp_all
  have t: "lock_discipline s ?s1" using assms by (simp add: lock_discipline_def)
  have a: "lock_discipline s (applyAction i n cs pos ?s1)" for i n cs pos
    using applyAction_lock [OF free, of i n cs pos] by (simp only: c)
  show ?thesis
    using assms t a
    by (simp add: assistant_try_def Let_def lock_discipline_refl
        split: option.splits inference_outcome.splits)
qed

lemma generateAndApplyHumanAction_lock:
  assumes "\<not> isTyping s"
  shows "lock_discipline s (generateAndApplyHumanAction srv s)"
proof (cases "editor s")
  case None
  then show ?thesis using assms by (simp add: generateAndApplyHumanAction_def lock_discipline_refl)
next
  case (Some ed)
  show ?thesis
  proof (cases "isProcessing s")
    case True
    then show ?thesis
      using Some assms by (simp add: generateAndApplyHumanAction_def lock_discipline_refl)
  next
    case False
    let ?s0 = "s\<lparr> isProcessing := True \<rparr>"
    obtain r s1 where h: "human_try srv ed ?s0 = (r, s1)" by (cases "human_try srv ed ?s0")
    have free: "\<not> isTyping ?s0" using assms by simp
    have "lock_discipline ?s0 s1" using human_try_lock [OF free, of srv ed] h by simp
    then have l1: "lock_discipline s s1"
      by (simp add: lock_discipline_cong [of ?s0 s s1 s1])
    then have "\<not> isTyping s1" by (simp add: lock_discipline_def)
    then have l2: "lock_discipline s (guarded_typing [CHR 0x0A] s1)"
      using lock_discipline_trans [OF l1 guarded_typing_lock] by simp
    have u: "lock_discipline s (x\<lparr> isProcessing := False \<rparr>) = lock_discipline s x" for x
      by (rule lock_discipline_cong) simp_all
    show ?thesis
      using Some False h l1 l2 by (cases r) (simp_all add: generateAndApplyHumanAction_def u)
  qed
qed

lemma generateAndApplyAssistantAction_lock:
  assumes "\<not> isTyping s"
  shows "lock_discipline s (generateAndApplyAssistantAction srv s)"
proof (cases "editor s")
  case None
  then show ?thesis
    using assms by (simp add: generateAndApplyAssistantAction_def lock_discipline_refl)
next
  case (Some ed)
  show ?thesis
  proof (cases "isProcessing s")
    case True
    then show ?thesis
      using Some assms by (simp add: generateAndApplyAssistantAction_def lock_discipline_refl)
  next
    case False
    let ?s0 = "s\<lparr> isProcessing := True \<rparr>"
    obtain r s1 where h: "assistant_try srv ed ?s0 = (r, s1)"
      by (cases "assistant_try srv ed ?s0")
    have free: "\<not> isTyping ?s0" using assms by simp
    have "lock_discipline ?s0 s1" using assistant_try_lock [OF free, of srv ed] h by simp
    then have l1: "lock_discipline s s1"
      by (simp add: lock_discipline_cong [of ?s0 s s1 s1])
    have u: "lock_discipline s (x\<lparr> isProcessing := False \<rparr>) = lock_discipline s x" for x
      by (rule lock_discipline_cong) simp_all
    show ?thesis
      using Some False h l1 by (simp add: generateAndApplyAssistantAction_def u)
  qed
qed

lemma simulateTyping_sel [simp]:
  "keystrokes (simulateTyping cs s) = keystrokes s"
  "isTyping (simulateTyping cs s) = isTyping s"
  by (simp_all add: simulateTyping_def Let_def split: option.splits)

lemma executeAction_lock:
  assumes "\<not> isTyping s"
  shows "lock_discipline s (executeAction srv a s)"
proof (cases "editor s")
  case None
  then show ?thesis using assms by (simp add: executeAction_def lock_discipline_refl)
next
  case (Some ed)
  have u: "lock_discipline s (x\<lparr> stats := v \<rparr>) = lock_discipline s x" for x v
    by (rule lock_discipline_cong) simp_all
  have k: "keystrokes x = keystrokes s \<Longrightarrow> isTyping x = isTyping s \<Longrightarrow> lock_discipline s x" for x
    using assms by (simp add: lock_discipline_def)
  show ?thesis
    using Some assms generateAndApplyHumanAction_lock [OF assms, of srv]
      generateAndApplyAssistantAction_lock [OF assms, of srv]
    by (cases a) (simp_all add: executeAction_def Let_def u k split: option.splits)
qed

text \<open>
  C9: started with the typing lock free, each edit operation (fill-partial-line,
  replace-and-append, edit-existing-lines, the two comment operations, the guarded
  fallback typing, \<^verbatim>\<open>applyAction\<close> as a whole, and a whole turn through
  \<^verbatim>\<open>executeAction\<close>) hands every character to the editor while the lock is held and
  leaves the lock free, whether it returns or throws. The operations that read the
  cursor's line throw when that line is outside the document, and the lock is free
  after the throw.
\<close>

theorem C9_typing_lock_released:
  assumes "\<not> isTyping s"
  shows "lock_discipline s (snd (fillPartialLine responseText pos s))
    \<and> lock_discipline s (snd (replaceAndAppendLine responseText pos s))
    \<and> lock_discipline s (snd (editExistingLines responseText targetLine s))
    \<and> lock_discipline s (snd (addInlineComment responseText pos s))
    \<and> lock_discipline s (snd (addCommentAtLine responseText targetLine s))
    \<and> lock_discipline s (guarded_typing responseText s)
    \<and> lock_discipline s (applyAction actionIndex targetLine responseText pos s)
    \<and> lock_discipline s (executeAction srv action s)
    \<and> (\<forall>ed ls. editor s = Some ed \<and> ed_model ed = Some ls
           \<and> getLineContent ls (lineNumber pos) = None \<longrightarrow>
         replaceAndAppendLine responseText pos s = (Threw, s\<lparr> isTyping := False \<rparr>)
         \<and> addInlineComment responseText pos s = (Threw, s\<lparr> isTyping := False \<rparr>))"
  using assms
  by (simp add: fillPartialLine_lock replaceAndAppendLine_lock editExistingLines_lock
      addInlineComment_lock addCommentAtLine_lock guarded_typing_lock applyAction_lock
      executeAction_lock)
    (auto simp: replaceAndAppendLine_def addInlineComment_def release_typing_def)

theorem C9_typing_lock_released_witness:
  "replaceAndAppendLine ''x'' \<lparr> lineNumber = 9, column = 1 \<rparr> sim0
      = (Threw, sim0\<lparr> isTyping := False \<rparr>)
   \<and> \<not> isTyping (snd (editExistingLines ''return 1'' 2 sim0))
   \<and> keystrokes (snd (editExistingLines ''return 1'' 2 sim0))
      = map (\<lambda>c. (c, True)) ''return 1''
   \<and> keystrokes (applyAction 2 0 ''x'' \<lparr> lineNumber = 9, column = 1 \<rparr> sim0)
      = [(CHR 0x0A, True)]
   \<and> \<not> isTyping (applyAction 2 0 ''x'' \<lparr> lineNumber = 9, column = 1 \<rparr> sim0)"
proof -
  have ind: "getIndentation ''    pass'' = ''    ''"
    by (simp add: getIndentation_def getIndentationLevel_def trimStart_def isWhiteSpace_def)
  have tr: "trim ''return 1'' = ''return 1''"
    by (simp_all add: trim_def trimStart_def trimEnd_def isWhiteSpace_def)
  have s: "\<not> isTyping sim0" "editor sim0 = Some ed0"
    "ed_model ed0 = Some [''def f():'', ''    pass'', '''']"
    by (simp_all add: sim0_eq ed0_def initial_simulator_def)
  have thr: "replaceAndAppendLine ''x'' \<lparr> lineNumber = 9, column = 1 \<rparr> sim0
      = (Threw, sim0\<lparr> isTyping := False \<rparr>)"
    using C9_typing_lock_released [OF s(1), of "''x''" "\<lparr> lineNumber = 9, column = 1 \<rparr>" 2 2] s
    by (simp add: getLineContent_def)
  have ks: "keystrokes sim0 = []" by (simp add: sim0_eq initial_simulator_def)
  have e: "keystrokes (snd (editExistingLines ''return 1'' 2 sim0)) = map (\<lambda>c. (c, True)) ''return 1''"
    using s by (simp add: editExistingLines_def release_typing_def getLineContent_def Let_def
        format_lines_def ind tr ks editor_setPosition_def editor_executeEdits_def)
  show ?thesis
    using C9_typing_lock_released [OF s(1), of "''return 1''" "\<lparr> lineNumber = 9, column = 1 \<rparr>" 2 2]
      C9_typing_lock_released [OF s(1), of "''x''" "\<lparr> lineNumber = 9, column = 1 \<rparr>" 2 2]
      thr e s
    by (simp add: lock_discipline_def applyAction_def dispatch_action_def guarded_typing_def ks)
qed


text \<open>
  C3: on a document of \<open>length ls\<close> lines, an EDIT\_EXISTING\_LINES action (index 4)
  whose target line is below 1 or above the line count does exactly what
  REPLACE\_AND\_APPEND (index 2 or 3) does at the editor's current cursor, and an
  EXPLAIN\_MULTI\_LINE action (index 6) with such a target does exactly what
  EXPLAIN\_SINGLE\_LINE (index 5) does at the cursor.
\<close>

theorem C3_out_of_bounds_redirect:
  assumes "editor s = Some ed" and "ed_model ed = Some ls"
    and "targetLine < 1 \<or> int (length ls) < targetLine"
  shows "editExistingLines responseText targetLine s
           = replaceAndAppendLine responseText (ed_position ed) s
    \<and> addCommentAtLine responseText targetLine s
           = addInlineComment responseText (ed_position ed) s
    \<and> applyAction 4 targetLine responseText pos s
           = applyAction 2 targetLine responseText (ed_position ed) s
    \<and> applyAction 4 targetLine responseText pos s
           = applyAction 3 targetLine responseText (ed_position ed) s
    \<and> applyAction 6 targetLine responseText pos s
           = applyAction 5 targetLine responseText (ed_position ed) s"
proof -
  have e: "editExistingLines responseText targetLine s
           = replaceAndAppendLine responseText (ed_position ed) s"
    using assms
    by (cases "isTyping s")
      (simp_all add: editExistingLines_def replaceAndAppendLine_def getPosition_def)
  have c: "addCommentAtLine responseText targetLine s
           = addInlineComment responseText (ed_position ed) s"
    using assms
    by (cases "isTyping s")
      (simp_all add: addCommentAtLine_def addInlineComment_def getPosition_def)
  show ?thesis
    using assms(1,2) by (simp add: e c applyAction_def dispatch_action_def)
qed

theorem C3_out_of_bounds_redirect_witness:
  "applyAction 4 (int (length [''def f():'', ''    pass'', '''']) + 5) ''return 1''
       \<lparr> lineNumber = 1, column = 1 \<rparr> sim0
     = applyAction 2 8 ''return 1'' \<lparr> lineNumber = 2, column = 9 \<rparr> sim0
   \<and> editor (applyAction 4 8 ''return 1'' \<lparr> lineNumber = 1, column = 1 \<rparr> sim0)
     = Some \<lparr> ed_model = Some [''def f():'', ''    return 1'', ''''],
              ed_position = \<lparr> lineNumber = 2, column = 13 \<rparr> \<rparr>
   \<and> editor (applyAction 6 0 ''why'' \<lparr> lineNumber = 1, column = 1 \<rparr> sim0)
     = Some \<lparr> ed_model = Some [''def f():'', ''    pass # why'', ''''],
              ed_position = \<lparr> lineNumber = 2, column = 15 \<rparr> \<rparr>"
proof -
  have ind: "getIndentation ''    pass'' = ''    ''"
    by (simp add: getIndentation_def getIndentationLevel_def trimStart_def isWhiteSpace_def)
  have tr: "trim ''return 1'' = ''return 1''" "trim ''why'' = ''why''" "trim ''    pass'' = ''pass''"
    by (simp_all add: trim_def trimStart_def trimEnd_def isWhiteSpace_def)
  show ?thesis
    using C3_out_of_bounds_redirect [of sim0 ed0 "[''def f():'', ''    pass'', '''']" 8
        "''return 1''" "\<lparr> lineNumber = 1, column = 1 \<rparr>"]
      C3_out_of_bounds_redirect [of sim0 ed0 "[''def f():'', ''    pass'', '''']" 0
        "''why''" "\<lparr> lineNumber = 1, column = 1 \<rparr>"]
    by (simp add: sim0_eq ed0_def initial_simulator_def applyAction_def dispatch_action_def
        replaceAndAppendLine_def addInlineComment_def getLineContent_def release_typing_def
        editor_setPosition_def editor_executeEdits_def setPosition_def executeEdits_def
        validatePosition_def replace_range_def format_lines_def replace_newlines_def
        simulateTypingWithDelay_def trigger_type_def type_char_def Let_def ind tr)
qed


text \<open>
  C4: an action index outside 0..6, on a bound editor with the typing lock free, hands
  the raw payload to the editor character by character, in order; with a non-empty
  payload the result differs from that of NO\_OP.
\<close>

theorem C4_unknown_action_types_payload:
  assumes "actionIndex < 0 \<or> 6 < actionIndex"
    and "editor s = Some ed" and "ed_model ed = Some ls"
    and "\<not> isTyping s"
  shows "applyAction actionIndex targetLine responseText pos s =
      s\<lparr> editor := Some (fold type_char responseText ed),
         keystrokes := keystrokes s @ map (\<lambda>c. (c, True)) responseText,
         isTyping := False \<rparr>
    \<and> (responseText \<noteq> [] \<longrightarrow>
         applyAction actionIndex targetLine responseText pos s
           \<noteq> applyAction 0 targetLine responseText pos s)"
proof -
  have ed1: "editor (s\<lparr> isTyping := True \<rparr>) = Some ed" using assms(2) by simp
  have a: "applyAction actionIndex targetLine responseText pos s =
      s\<lparr> editor := Some (fold type_char responseText ed),
         keystrokes := keystrokes s @ map (\<lambda>c. (c, True)) responseText,
         isTyping := False \<rparr>"
    using assms
    by (auto simp: applyAction_def dispatch_action_def guarded_typing_def
        simulateTypingWithDelay_bound [OF ed1])
  have z: "applyAction 0 targetLine responseText pos s = s"
    using assms(2,3) by (simp add: applyAction_def dispatch_action_def)
  have "responseText \<noteq> [] \<Longrightarrow> keystrokes (applyAction actionIndex targetLine responseText pos s) \<noteq> keystrokes s"
    by (simp add: a)
  then show ?thesis using a z by metis
qed

theorem C4_unknown_action_types_payload_witness:
  "applyAction 7 1 (''x'' @ [CHR 0x0A] @ '' y'') \<lparr> lineNumber = 2, column = 9 \<rparr> sim0 =
      sim0\<lparr> editor := Some \<lparr> ed_model = Some [''def f():'', ''    passx'', '' y'', ''''],
                               ed_position = \<lparr> lineNumber = 3, column = 3 \<rparr> \<rparr>,
            keystrokes := [(CHR ''x'', True), (CHR 0x0A, True), (CHR '' '', True), (CHR ''y'', True)],
            isTyping := False \<rparr>
   \<and> applyAction 7 1 (''x'' @ [CHR 0x0A] @ '' y'') \<lparr> lineNumber = 2, column = 9 \<rparr> sim0
       \<noteq> applyAction 0 1 (''x'' @ [CHR 0x0A] @ '' y'') \<lparr> lineNumber = 2, column = 9 \<rparr> sim0"
  using C4_unknown_action_types_payload [of 7 sim0 ed0 "[''def f():'', ''    pass'', '''']"
      1 "''x'' @ [CHR 0x0A] @ '' y''" "\<lparr> lineNumber = 2, column = 9 \<rparr>"]
  by (simp add: sim0_eq ed0_def initial_simulator_def type_char_def Let_def
      applyAction_def dispatch_action_def)

section \<open>Properties of turns\<close>


subsection \<open>What a turn leaves alone\<close>

lemma typing_frame_log: "typing_frame s s' \<Longrightarrow> schedule_log s' = schedule_log s"
proof -
  assume "typing_frame s s'"
  then have e: "s' = s\<lparr> editor := editor s', isTyping := isTyping s', keystrokes := keystrokes s' \<rparr>"
    by (simp add: typing_frame_def)
  show ?thesis by (subst e) simp
qed

lemma turn_frame_refl [simp]: "turn_frame s s"
  by (simp add: turn_frame_def)

lemma turn_frame_trans: "turn_frame s s' \<Longrightarrow> turn_frame s' s'' \<Longrightarrow> turn_frame s s''"
proof -
  assume a: "turn_frame s s'" and b: "turn_frame s' s''"
  from b have "s'' = s'\<lparr> editor := editor s'', stats := stats s'', isProcessing := isProcessing s'',
             isTyping := isTyping s'', timestep := timestep s'', keystrokes := keystrokes s'' \<rparr>"
    by (simp add: turn_frame_def)
  also from a have "s' = s\<lparr> editor := editor s', stats := stats s', isProcessing := isProcessing s',
             isTyping := isTyping s', timestep := timestep s', keystrokes := keystrokes s' \<rparr>"
    by (simp add: turn_frame_def)
  finally show ?thesis by (simp add: turn_frame_def)
qed

lemma typing_frame_turn: "typing_frame s s' \<Longrightarrow> turn_frame s s'"
proof -
  assume "typing_frame s s'"
  then have e: "s' = s\<lparr> editor := editor s', isTyping := isTyping s', keystrokes := keystrokes s' \<rparr>"
    by (simp add: typing_frame_def)
  show ?thesis unfolding turn_frame_def by (subst (1 2 3 4 5 6 7) e) simp
qed

lemma turn_frame_update:
  "turn_frame s (s\<lparr> isProcessing := b \<rparr>)"
  "turn_frame s (s\<lparr> timestep := n \<rparr>)"
  "turn_frame s (s\<lparr> stats := st \<rparr>)"
  by (simp_all add: turn_frame_def)

lemma turn_frame_sel:
  assumes "turn_frame s s'"
  shows "isRunning s' = isRunning s" "config s' = config s"
    "humanActionsPerformed s' = humanActionsPerformed s"
    "assistantActionsPerformed s' = assistantActionsPerformed s"
    "schedule_log s' = schedule_log s"
    "maxAssistantActions s' = maxAssistantActions s"
    "humanFollowUpActions s' = humanFollowUpActions s"
proof -
  from assms have e: "s' = s\<lparr> editor := editor s', stats := stats s', isProcessing := isProcessing s',
             isTyping := isTyping s', timestep := timestep s', keystrokes := keystrokes s' \<rparr>"
    by (simp add: turn_frame_def)
  show "isRunning s' = isRunning s" by (subst e) simp
  show "config s' = config s" by (subst e) simp
  show "humanActionsPerformed s' = humanActionsPerformed s" by (subst e) simp
  show "assistantActionsPerformed s' = assistantActionsPerformed s" by (subst e) simp
  show "schedule_log s' = schedule_log s" by (subst e) simp
  show "maxAssistantActions s' = maxAssistantActions s" by (subst e) simp
  show "humanFollowUpActions s' = humanFollowUpActions s" by (subst e) simp
qed

lemma human_try_frame: "turn_frame s (snd (human_try srv ed s))"
proof -
  have t: "turn_frame s (s\<lparr> timestep := timestep s + 1 \<rparr>)" by (rule turn_frame_update)
  have g: "turn_frame s (guarded_typing cs (s\<lparr> timestep := timestep s + 1 \<rparr>))" for cs
    by (rule turn_frame_trans [OF t typing_frame_turn [OF guarded_typing_frame]])
  have a: "turn_frame s (applyAction i n cs pos (s\<lparr> timestep := timestep s + 1 \<rparr>))" for i n cs pos
    by (rule turn_frame_trans [OF t typing_frame_turn [OF applyAction_frame]])
  show ?thesis
    by (simp add: human_try_def Let_def t g a split: option.splits inference_outcome.splits)
qed

lemma assistant_try_frame: "turn_frame s (snd (assistant_try srv ed s))"
proof -
  have t: "turn_frame s (s\<lparr> timestep := timestep s + 1 \<rparr>)" by (rule turn_frame_update)
  have a: "turn_frame s (applyAction i n cs pos (s\<lparr> timestep := timestep s + 1 \<rparr>))" for i n cs pos
    by (rule turn_frame_trans [OF t typing_frame_turn [OF applyAction_frame]])
  show ?thesis
    by (simp add: assistant_try_def Let_def t a split: option.splits inference_outcome.splits)
qed

lemma generateAndApplyHumanAction_frame: "turn_frame s (generateAndApplyHumanAction srv s)"
proof (cases "editor s")
  case None
  then show ?thesis by (simp add: generateAndApplyHumanAction_def)
next
  case (Some ed)
  show ?thesis
  proof (cases "isProcessing s")
    case True
    then show ?thesis using Some by (simp add: generateAndApplyHumanAction_def)
  next
    case False
    let ?s0 = "s\<lparr> isProcessing := True \<rparr>"
    obtain r s1 where h: "human_try srv ed ?s0 = (r, s1)" by (cases "human_try srv ed ?s0")
    have f0: "turn_frame s ?s0" by (rule turn_frame_update)
    have f1: "turn_frame s s1"
      using turn_frame_trans [OF f0 human_try_frame [of ?s0 srv ed]] h by simp
    have f2: "turn_frame s (guarded_typing cs s1)" for cs
      by (rule turn_frame_trans [OF f1 typing_frame_turn [OF guarded_typing_frame]])
    have f3: "turn_frame s x \<Longrightarrow> turn_frame s (x\<lparr> isProcessing := False \<rparr>)" for x
      by (rule turn_frame_trans [OF _ turn_frame_update(1)])
    show ?thesis
      using Some False h f1 f2 f3
      by (cases r) (simp_all add: generateAndApplyHumanAction_def)
  qed
qed

lemma generateAndApplyAssistantAction_frame:
  "turn_frame s (generateAndApplyAssistantAction srv s)"
proof (cases "editor s")
  case None
  then show ?thesis by (simp add: generateAndApplyAssistantAction_def)
next
  case (Some ed)
  show ?thesis
  proof (cases "isProcessing s")
    case True
    then show ?thesis using Some by (simp add: generateAndApplyAssistantAction_def)
  next
    case False
    let ?s0 = "s\<lparr> isProcessing := True \<rparr>"
    obtain r s1 where h: "assistant_try srv ed ?s0 = (r, s1)" by (cases "assistant_try srv ed ?s0")
    have f0: "turn_frame s ?s0" by (rule turn_frame_update)
    have f1: "turn_frame s s1"
      using turn_frame_trans [OF f0 assistant_try_frame [of ?s0 srv ed]] h by simp
    have f3: "turn_frame s (s1\<lparr> isProcessing := False \<rparr>)"
      by (rule turn_frame_trans [OF f1 turn_frame_update(1)])
    show ?thesis
      using Some False h f3 by (simp add: generateAndApplyAssistantAction_def)
  qed
qed

lemma simulateTyping_frame: "typing_frame s (simulateTyping cs s)"
  by (auto simp: simulateTyping_def Let_def split: option.splits
      intro!: typing_frame_trans [OF editor_executeEdits_frame editor_setPosition_frame])

lemma executeAction_frame: "turn_frame s (executeAction srv a s)"
proof (cases "editor s")
  case None
  then show ?thesis by (simp add: executeAction_def)
next
  case (Some ed)
  let ?s1 = "case a of
       StateServiceHuman \<Rightarrow> generateAndApplyHumanAction srv s
     | StateServiceAssistant \<Rightarrow> generateAndApplyAssistantAction srv s
     | TypeAction payload \<Rightarrow>
         (case payload of Some cs \<Rightarrow> if cs \<noteq> [] then simulateTyping cs s else s | None \<Rightarrow> s)
     | CursorMoveAction payload \<Rightarrow>
         (case payload of Some p \<Rightarrow> editor_setPosition p s | None \<Rightarrow> s)
     | WaitAction payload \<Rightarrow> s
     | OtherAction \<Rightarrow> s"
  have inner: "turn_frame s ?s1"
    by (cases a)
      (simp_all add: generateAndApplyHumanAction_frame generateAndApplyAssistantAction_frame
        typing_frame_turn [OF simulateTyping_frame] typing_frame_turn [OF editor_setPosition_frame]
        split: option.splits)
  have "executeAction srv a s
      = ?s1\<lparr> stats := (stats ?s1)\<lparr> totalActions := totalActions (stats ?s1) + 1 \<rparr> \<rparr>"
    using Some by (simp add: executeAction_def Let_def)
  then show ?thesis
    using turn_frame_trans [OF inner turn_frame_update(3)] by simp
qed

lemma executeAction_sel [simp]:
  "isRunning (executeAction srv a s) = isRunning s"
  "humanActionsPerformed (executeAction srv a s) = humanActionsPerformed s"
  "assistantActionsPerformed (executeAction srv a s) = assistantActionsPerformed s"
  "schedule_log (executeAction srv a s) = schedule_log s"
  using turn_frame_sel [OF executeAction_frame [of s srv a]] by simp_all

subsection \<open>A turn that finds the processing lock held\<close>

lemma executeAction_busy:
  assumes "editor s = Some ed" and "isProcessing s"
  shows "generateAndApplyHumanAction srv s = s"
    and "generateAndApplyAssistantAction srv s = s"
    and "executeAction srv StateServiceHuman s
          = s\<lparr> stats := (stats s)\<lparr> totalActions := totalActions (stats s) + 1 \<rparr> \<rparr>"
    and "executeAction srv StateServiceAssistant s
          = s\<lparr> stats := (stats s)\<lparr> totalActions := totalActions (stats s) + 1 \<rparr> \<rparr>"
  using assms
  by (simp_all add: executeAction_def generateAndApplyHumanAction_def
      generateAndApplyAssistantAction_def)

text \<open>
  C5, as stated, fails: a human turn that finds the processing lock held is dropped by
  \<^verbatim>\<open>generateAndApplyHumanAction\<close>, which changes nothing, but \<^verbatim>\<open>executeAction\<close> then
  increments \<^verbatim>\<open>stats.totalActions\<close> all the same: from 0 to 1 on the sample simulator.
\<close>

theorem C5_skipped_turn_counterexample:
  "isProcessing (sim0\<lparr> isProcessing := True \<rparr>)
   \<and> generateAndApplyHumanAction (service quiet_env) (sim0\<lparr> isProcessing := True \<rparr>)
       = sim0\<lparr> isProcessing := True \<rparr>
   \<and> totalActions (stats (sim0\<lparr> isProcessing := True \<rparr>)) = 0
   \<and> totalActions (stats (executeAction (service quiet_env) StateServiceHuman
        (sim0\<lparr> isProcessing := True \<rparr>))) = 1"
  by (simp add: executeAction_busy [of _ ed0] sim0_eq initial_simulator_def)

text \<open>
  C5, amended: a human or assistant turn that is dropped because the processing lock is
  held sends no request and leaves document, cursor, locks, timestep and every other
  field as they are, except that \<^verbatim>\<open>stats.totalActions\<close> is incremented by one.
\<close>

theorem C5_skipped_turn_amended:
  assumes "editor s = Some ed" and "isProcessing s"
    and "action = StateServiceHuman \<or> action = StateServiceAssistant"
  shows "generateAndApplyHumanAction srv s = s
    \<and> generateAndApplyAssistantAction srv s = s
    \<and> executeAction srv action s
        = s\<lparr> stats := (stats s)\<lparr> totalActions := totalActions (stats s) + 1 \<rparr> \<rparr>"
  using assms executeAction_busy [OF assms(1,2), of srv] by auto

theorem C5_skipped_turn_amended_witness:
  "executeAction (\<lambda>request. Action 2 1 ''x'') StateServiceAssistant (sim0\<lparr> isProcessing := True \<rparr>)
     = sim0\<lparr> isProcessing := True,
             stats := \<lparr> totalActions = 1, totalDurationMs = 0, episodesCreated = 0,
                        agentSuggestionsReceived = 0, lastRunTime = None \<rparr> \<rparr>"
  using C5_skipped_turn_amended [of "sim0\<lparr> isProcessing := True \<rparr>" ed0 StateServiceAssistant
      "\<lambda>request. Action 2 1 ''x''"]
  by (simp add: sim0_eq initial_simulator_def)

section \<open>Properties of the paired schedule\<close>


subsection \<open>The paired schedule without interruption\<close>

lemma attempts_simps [simp]:
  "attempts [] = []"
  "attempts (xs @ ys) = attempts xs @ attempts ys"
  "attempts [Attempt a] = [a]"
  "attempts [Pause ms] = []"
  by (simp_all add: attempts_def)

lemma await_turn_quiet:
  "\<forall>p. \<not> interrupt env p \<Longrightarrow>
   await_turn env a p s
     = executeAction (service env) a (s\<lparr> schedule_log := schedule_log s @ [Attempt a] \<rparr>)"
  by (simp add: await_turn_def resume_at_def)

lemma await_wait_quiet:
  "\<forall>p. \<not> interrupt env p \<Longrightarrow>
   await_wait env ms p s = s\<lparr> schedule_log := schedule_log s @ [Pause ms] \<rparr>"
  by (simp add: await_wait_def resume_at_def)

lemma await_quiet_running:
  assumes "\<forall>p. \<not> interrupt env p"
  shows "isRunning (await_turn env a p s) = isRunning s"
    and "isRunning (await_wait env ms p s) = isRunning s"
  by (simp_all add: await_turn_quiet [OF assms] await_wait_quiet [OF assms])

lemma pair_loop_quiet:
  assumes q: "\<forall>p. \<not> interrupt env p"
  shows "isRunning s \<Longrightarrow> n = nat (al - int i) \<Longrightarrow>
     isRunning (pair_loop env iv al fu i s)
     \<and> humanActionsPerformed (pair_loop env iv al fu i s) = humanActionsPerformed s + int n
     \<and> assistantActionsPerformed (pair_loop env iv al fu i s)
         = assistantActionsPerformed s + int n
     \<and> attempts (schedule_log (pair_loop env iv al fu i s))
         = attempts (schedule_log s)
           @ concat (replicate n [StateServiceHuman, StateServiceAssistant])"
proof (induction n arbitrary: i s)
  case 0
  then have "\<not> int i < al" by simp
  then have "pair_loop env iv al fu i s = s" by (subst pair_loop.simps) simp
  then show ?case using "0.prems" by simp
next
  case (Suc n)
  then have lt: "int i < al" and n: "n = nat (al - int (Suc i))" by simp_all
  define s1 where "s1 = await_turn env StateServiceHuman (AfterHumanTurn i) s"
  define s2 where "s2 = s1\<lparr> humanActionsPerformed := humanActionsPerformed s1 + 1 \<rparr>"
  define s3 where "s3 = (if 0 < iv then await_wait env iv (AfterFirstWait i) s2 else s2)"
  define s4 where "s4 = await_turn env StateServiceAssistant (AfterAssistantTurn i) s3"
  define s5 where "s5 = s4\<lparr> assistantActionsPerformed := assistantActionsPerformed s4 + 1 \<rparr>"
  define s6 where "s6 = (if 0 < iv \<and> (int i < al - 1 \<or> 0 < fu)
                         then await_wait env iv (AfterSecondWait i) s5 else s5)"
  have r1: "isRunning s1" and h1: "humanActionsPerformed s1 = humanActionsPerformed s"
    and a1: "assistantActionsPerformed s1 = assistantActionsPerformed s"
    and l1: "attempts (schedule_log s1) = attempts (schedule_log s) @ [StateServiceHuman]"
    using Suc.prems(1) by (simp_all add: s1_def await_turn_quiet [OF q])
  have r3: "isRunning s3" and h3: "humanActionsPerformed s3 = humanActionsPerformed s + 1"
    and a3: "assistantActionsPerformed s3 = assistantActionsPerformed s"
    and l3: "attempts (schedule_log s3) = attempts (schedule_log s) @ [StateServiceHuman]"
    using r1 h1 a1 l1 by (simp_all add: s3_def s2_def await_wait_quiet [OF q])
  have r4: "isRunning s4" and h4: "humanActionsPerformed s4 = humanActionsPerformed s + 1"
    and a4: "assistantActionsPerformed s4 = assistantActionsPerformed s"
    and l4: "attempts (schedule_log s4)
        = attempts (schedule_log s) @ [StateServiceHuman, StateServiceAssistant]"
    using r3 h3 a3 l3 by (simp_all add: s4_def await_turn_quiet [OF q])
  have r6: "isRunning s6" and h6: "humanActionsPerformed s6 = humanActionsPerformed s + 1"
    and a6: "assistantActionsPerformed s6 = assistantActionsPerformed s + 1"
    and l6: "attempts (schedule_log s6)
        = attempts (schedule_log s) @ [StateServiceHuman, StateServiceAssistant]"
    using r4 h4 a4 l4 by (simp_all add: s6_def s5_def await_wait_quiet [OF q])
  have r2: "isRunning s2" using r1 by (simp add: s2_def)
  have r5: "isRunning s5" using r4 by (simp add: s5_def)
  have step: "pair_loop env iv al fu i s = pair_loop env iv al fu (Suc i) s6"
    using lt Suc.prems(1)
    by (subst pair_loop.simps)
      (simp add: Let_def s1_def s2_def s3_def s4_def s5_def s6_def await_quiet_running [OF q])
  from Suc.IH [OF r6 n] show ?case
    unfolding step h6 a6 l6 by simp
qed

lemma follow_loop_quiet:
  assumes q: "\<forall>p. \<not> interrupt env p"
  shows "isRunning s \<Longrightarrow> n = nat (fu - int j) \<Longrightarrow>
     isRunning (follow_loop env iv fu j s)
     \<and> humanActionsPerformed (follow_loop env iv fu j s) = humanActionsPerformed s + int n
     \<and> assistantActionsPerformed (follow_loop env iv fu j s) = assistantActionsPerformed s
     \<and> attempts (schedule_log (follow_loop env iv fu j s))
         = attempts (schedule_log s) @ replicate n StateServiceHuman"
proof (induction n arbitrary: j s)
  case 0
  then have "\<not> int j < fu" by simp
  then have "follow_loop env iv fu j s = s" by (subst follow_loop.simps) simp
  then show ?case using "0.prems" by simp
next
  case (Suc n)
  then have lt: "int j < fu" and n: "n = nat (fu - int (Suc j))" by simp_all
  define s1 where "s1 = await_turn env StateServiceHuman (AfterFollowUpTurn j) s"
  define s2 where "s2 = s1\<lparr> humanActionsPerformed := humanActionsPerformed s1 + 1 \<rparr>"
  define s3 where "s3 = (if 0 < iv \<and> int j < fu - 1
                         then await_wait env iv (AfterFollowUpWait j) s2 else s2)"
  have r1: "isRunning s1" and h1: "humanActionsPerformed s1 = humanActionsPerformed s"
    and a1: "assistantActionsPerformed s1 = assistantActionsPerformed s"
    and l1: "attempts (schedule_log s1) = attempts (schedule_log s) @ [StateServiceHuman]"
    using Suc.prems(1) by (simp_all add: s1_def await_turn_quiet [OF q])
  have r2: "isRunning s2" using r1 by (simp add: s2_def)
  have r3: "isRunning s3" and h3: "humanActionsPerformed s3 = humanActionsPerformed s + 1"
    and a3: "assistantActionsPerformed s3 = assistantActionsPerformed s"
    and l3: "attempts (schedule_log s3) = attempts (schedule_log s) @ [StateServiceHuman]"
    using r1 h1 a1 l1 by (simp_all add: s3_def s2_def await_wait_quiet [OF q])
  have step: "follow_loop env iv fu j s = follow_loop env iv fu (Suc j) s3"
    using lt Suc.prems(1)
    by (subst follow_loop.simps)
      (simp add: Let_def s1_def s2_def s3_def await_quiet_running [OF q])
  from Suc.IH [OF r3 n] show ?case
    unfolding step h3 a3 l3 by (simp add: replicate_append_same)
qed


lemma stop_sync_sel [simp]:
  "humanActionsPerformed (stop_sync e s) = humanActionsPerformed s"
  "assistantActionsPerformed (stop_sync e s) = assistantActionsPerformed s"
  "schedule_log (stop_sync e s) = schedule_log s"
  by (simp_all add: stop_sync_def Let_def split: option.splits)

lemma close_host_sel [simp]:
  "humanActionsPerformed (close_host e s) = humanActionsPerformed s"
  "assistantActionsPerformed (close_host e s) = assistantActionsPerformed s"
  "schedule_log (close_host e s) = schedule_log s"
  by (simp_all add: close_host_def)

lemma runSequence_quiet:
  assumes q: "\<forall>p. \<not> interrupt env p" and r: "isRunning s"
  defines "al \<equiv> nat (case maxAssistantActions s of Some v \<Rightarrow> v | None \<Rightarrow> 0)"
  defines "fu \<equiv> nat (max 1 (humanFollowUpActions s))"
  shows "\<exists>s'. runSequence env s = Some s'
     \<and> \<not> isRunning s'
     \<and> assistantActionsPerformed s' = assistantActionsPerformed s + int al
     \<and> humanActionsPerformed s' = humanActionsPerformed s + int al + int fu
     \<and> attempts (schedule_log s')
         = attempts (schedule_log s)
           @ concat (replicate al [StateServiceHuman, StateServiceAssistant])
           @ replicate fu StateServiceHuman"
proof -
  define iv where "iv = (case cfg_intervalMs (config s) of
                           Some v \<Rightarrow> if v = 0 then 2500 else v | None \<Rightarrow> 2500)"
  define lim where "lim = (case maxAssistantActions s of Some v \<Rightarrow> v | None \<Rightarrow> 0)"
  define fuh where "fuh = max 1 (humanFollowUpActions s)"
  define s1 where "s1 = pair_loop env iv lim fuh 0 s"
  define s2 where "s2 = follow_loop env iv fuh 0 s1"
  have p: "isRunning s1"
      "humanActionsPerformed s1 = humanActionsPerformed s + int al"
      "assistantActionsPerformed s1 = assistantActionsPerformed s + int al"
      "attempts (schedule_log s1) = attempts (schedule_log s)
         @ concat (replicate al [StateServiceHuman, StateServiceAssistant])"
    using pair_loop_quiet [OF q r, of al lim 0 iv fuh]
    by (simp_all add: s1_def al_def lim_def)
  have f: "isRunning s2"
      "humanActionsPerformed s2 = humanActionsPerformed s1 + int fu"
      "assistantActionsPerformed s2 = assistantActionsPerformed s1"
      "attempts (schedule_log s2) = attempts (schedule_log s1) @ replicate fu StateServiceHuman"
    using follow_loop_quiet [OF q p(1), of fu fuh 0 iv]
    by (simp_all add: s2_def fu_def fuh_def)
  have "runSequence env s = stop (final_stop env) s2"
    using p(1) f(1)
    by (simp add: runSequence_def Let_def iv_def [symmetric] lim_def [symmetric]
        fuh_def [symmetric] s1_def [symmetric] s2_def [symmetric])
  then have "runSequence env s = Some (close_host (final_stop env) (stop_sync (final_stop env) s2))"
    using f(1) by (simp add: stop_returns)
  then show ?thesis
    using p f by simp
qed

lemma accept_delays_frame [simp]:
  "isRunning (accept_minActionDelayMs c s) = isRunning s"
  "isRunning (accept_maxActionDelayMs c s) = isRunning s"
  "isRunning (accept_postActionPauseMs c s) = isRunning s"
  "isRunning (accept_minTypingDelayMs c s) = isRunning s"
  "isRunning (accept_maxTypingDelayMs c s) = isRunning s"
  "humanActionsPerformed (accept_minActionDelayMs c s) = humanActionsPerformed s"
  "humanActionsPerformed (accept_maxActionDelayMs c s) = humanActionsPerformed s"
  "humanActionsPerformed (accept_postActionPauseMs c s) = humanActionsPerformed s"
  "humanActionsPerformed (accept_minTypingDelayMs c s) = humanActionsPerformed s"
  "humanActionsPerformed (accept_maxTypingDelayMs c s) = humanActionsPerformed s"
  "assistantActionsPerformed (accept_minActionDelayMs c s) = assistantActionsPerformed s"
  "assistantActionsPerformed (accept_maxActionDelayMs c s) = assistantActionsPerformed s"
  "assistantActionsPerformed (accept_postActionPauseMs c s) = assistantActionsPerformed s"
  "assistantActionsPerformed (accept_minTypingDelayMs c s) = assistantActionsPerformed s"
  "assistantActionsPerformed (accept_maxTypingDelayMs c s) = assistantActionsPerformed s"
  "schedule_log (accept_minActionDelayMs c s) = schedule_log s"
  "schedule_log (accept_maxActionDelayMs c s) = schedule_log s"
  "schedule_log (accept_postActionPauseMs c s) = schedule_log s"
  "schedule_log (accept_minTypingDelayMs c s) = schedule_log s"
  "schedule_log (accept_maxTypingDelayMs c s) = schedule_log s"
  by (simp_all add: accept_minActionDelayMs_def accept_maxActionDelayMs_def
      accept_postActionPauseMs_def accept_minTypingDelayMs_def accept_maxTypingDelayMs_def
      split: option.splits)

lemma constructor_fresh:
  "\<not> isRunning (constructor c)"
  "humanActionsPerformed (constructor c) = 0"
  "assistantActionsPerformed (constructor c) = 0"
  "schedule_log (constructor c) = []"
  by (simp_all add: constructor_def set_delays_def set_turn_limits_def initial_simulator_def
      split: option.splits)

lemma simulateEditorClick_frame: "typing_frame s (simulateEditorClick s)"
  by (simp add: simulateEditorClick_def split: option.splits)

lemma paired_run_quiet:
  assumes n: "cfg_maxAssistantActions c = Some N" and pos: "0 < N"
    and q: "\<forall>p. \<not> interrupt env p"
  defines "M \<equiv> max 1 (case cfg_humanFollowUpActions c of Some m \<Rightarrow> m | None \<Rightarrow> 1)"
  shows "\<exists>s'. paired_run env now (setEditor (Some ed) (constructor c)) = Some s'
     \<and> \<not> isRunning s'
     \<and> assistantActionsPerformed s' = N
     \<and> humanActionsPerformed s' = N + M
     \<and> attempts (schedule_log s')
         = concat (replicate (nat N) [StateServiceHuman, StateServiceAssistant])
           @ replicate (nat M) StateServiceHuman"
proof -
  let ?S = "(constructor c)\<lparr> editor := Some ed \<rparr>"
  let ?s1 = "?S\<lparr> isRunning := True, startTime := now \<rparr>"
  let ?s2 = "?s1\<lparr> stats := (stats ?s1)\<lparr> episodesCreated := episodesCreated (stats ?s1) + 1 \<rparr> \<rparr>"
  let ?s3 = "simulateEditorClick ?s2"
  have fr: "typing_frame ?s2 ?s3" by (rule simulateEditorClick_frame)
  have lim: "maxAssistantActions ?s3 = Some N"
    using typing_frame_sel(13) [OF fr] n pos by (simp add: constructor_assistant_limit)
  have fu: "humanFollowUpActions ?s3 = M"
    using typing_frame_sel(14) [OF fr] n by (simp add: constructor_follow_up M_def)
  have r: "isRunning ?s3" using typing_frame_sel(1) [OF fr] by simp
  have h: "humanActionsPerformed ?s3 = 0"
    using typing_frame_sel(6) [OF fr] by (simp add: constructor_fresh)
  have a: "assistantActionsPerformed ?s3 = 0"
    using typing_frame_sel(7) [OF fr] by (simp add: constructor_fresh)
  have l: "schedule_log ?s3 = []"
    using typing_frame_log [OF fr] by (simp add: constructor_fresh)
  have st: "start now ?S = (?s3, Some PairedSchedule)"
    using lim pos by (simp add: start_def Let_def constructor_fresh)
  have run: "paired_run env now ?S = runSequence env ?s3"
    by (simp add: paired_run_def st)
  have M1: "max 1 M = M" and M0: "0 \<le> M" by (simp_all add: M_def)
  show ?thesis
    using runSequence_quiet [OF q r] pos M0
    unfolding setEditor_def run lim fu h a l by (simp add: M1)
qed

text \<open>
  C1: for a configuration whose assistant limit after construction is \<open>N > 0\<close> and whose
  follow-up count after construction is \<open>M\<close>, a run of the paired schedule that no
  \<^verbatim>\<open>stop()\<close> interrupts returns, and has attempted exactly \<open>N\<close> assistant turns and
  \<open>N + M\<close> human turns: \<open>N\<close> times a human turn followed by an assistant turn, then \<open>M\<close>
  human turns. This holds whatever the inference service answers. (Construction makes
  \<open>M\<close> the maximum of 1 and the provided follow-up count, see \<open>constructor_follow_up\<close>.)
\<close>

theorem C1_paired_schedule:
  assumes "maxAssistantActions (constructor c) = Some N" and "0 < N"
    and "\<forall>p. \<not> interrupt env p"
  defines "M \<equiv> humanFollowUpActions (constructor c)"
  shows "\<exists>s'. paired_run env now (setEditor (Some ed) (constructor c)) = Some s'
     \<and> \<not> isRunning s'
     \<and> assistantActionsPerformed s' = N
     \<and> humanActionsPerformed s' = N + M
     \<and> attempts (schedule_log s')
         = concat (replicate (nat N) [StateServiceHuman, StateServiceAssistant])
           @ replicate (nat M) StateServiceHuman"
proof -
  from assms(1) obtain a where a: "cfg_maxAssistantActions c = Some a" and "max 0 a = N"
    by (auto simp: constructor_assistant_limit)
  with assms(2) have n: "cfg_maxAssistantActions c = Some N" by (simp add: max_def split: if_splits)
  have M: "M = max 1 (case cfg_humanFollowUpActions c of Some m \<Rightarrow> m | None \<Rightarrow> 1)"
    unfolding M_def using n by (simp add: constructor_follow_up)
  show ?thesis
    unfolding M by (rule paired_run_quiet [OF n assms(2,3)])
qed

theorem C1_paired_schedule_witness:
  "map_option (attempts \<circ> schedule_log)
     (paired_run quiet_env 0 (setEditor (Some ed0) (constructor two_pair_config)))
     = Some [StateServiceHuman, StateServiceAssistant, StateServiceHuman, StateServiceAssistant,
             StateServiceHuman, StateServiceHuman, StateServiceHuman]
   \<and> map_option humanActionsPerformed
     (paired_run quiet_env 0 (setEditor (Some ed0) (constructor two_pair_config))) = Some 5
   \<and> map_option assistantActionsPerformed
     (paired_run quiet_env 0 (setEditor (Some ed0) (constructor two_pair_config))) = Some 2
   \<and> humanFollowUpActions (constructor one_pair_config) = 1
   \<and> map_option (attempts \<circ> schedule_log)
     (paired_run quiet_env 0 (setEditor (Some ed0) (constructor one_pair_config)))
     = Some [StateServiceHuman, StateServiceAssistant, StateServiceHuman]"
proof -
  have n2: "maxAssistantActions (constructor two_pair_config) = Some 2"
    and m2: "humanFollowUpActions (constructor two_pair_config) = 3"
    by (simp_all add: constructor_assistant_limit constructor_follow_up two_pair_config_def
        empty_config_def)
  have n1: "maxAssistantActions (constructor one_pair_config) = Some 1"
    and m1: "humanFollowUpActions (constructor one_pair_config) = 1"
    by (simp_all add: constructor_assistant_limit constructor_follow_up one_pair_config_def
        empty_config_def)
  have q: "\<forall>p. \<not> interrupt quiet_env p" by (simp add: quiet_env_def)
  from C1_paired_schedule [OF n2 _ q, of 0 ed0] C1_paired_schedule [OF n1 _ q, of 0 ed0]
  show ?thesis
    by (auto simp: m2 m1 eval_nat_numeral)
qed

end
